theory Spec2Isabelle
  imports Complex_Main "HOL-Library.Sublist"
begin

section \<open>JavaScript values\<close>

text \<open>
  The dashboard is a React component (the second \<^verbatim>\<open>App\<close> of
  \<^verbatim>\<open>src/unnamed/part_000\<close>, lines 613 to 1704). Its inputs are decoded JSON
  payloads and form strings, so the model starts with the JavaScript values the
  code can meet.

  A number is an IEEE double: a finite value (taken as the rational it denotes),
  an infinity or NaN. Strings are byte lists; case folding and trimming are
  those of ASCII. An object is the list of its own properties, as \<^verbatim>\<open>JSON.parse\<close>
  builds it: every property value is again such a value, never a function.
\<close>

datatype jsnum = NaN | NegInf | Fin rat | PosInf

datatype jsval =
    JUndefined
  | JNull
  | JBool bool
  | JNum jsnum
  | JStr string
  | JArr "jsval list"
  | JObj "(string \<times> jsval) list"

datatype error = TypeError

text \<open>The relational operators: every comparison with NaN is false.\<close>

fun js_lt :: "jsnum \<Rightarrow> jsnum \<Rightarrow> bool" where
  "js_lt NaN b = False"
| "js_lt a NaN = False"
| "js_lt PosInf b = False"
| "js_lt a NegInf = False"
| "js_lt NegInf b = True"
| "js_lt a PosInf = True"
| "js_lt (Fin a) (Fin b) = (a < b)"

fun js_le :: "jsnum \<Rightarrow> jsnum \<Rightarrow> bool" where
  "js_le NaN b = False"
| "js_le a NaN = False"
| "js_le NegInf b = True"
| "js_le a PosInf = True"
| "js_le PosInf b = False"
| "js_le a NegInf = False"
| "js_le (Fin a) (Fin b) = (a \<le> b)"

definition js_ge :: "jsnum \<Rightarrow> jsnum \<Rightarrow> bool" where
  "js_ge a b = js_le b a"

text \<open>Truthiness, as \<^verbatim>\<open>||\<close>, \<^verbatim>\<open>&&\<close>, \<^verbatim>\<open>!\<close> and \<^verbatim>\<open>if\<close> read it.\<close>

fun truthy :: "jsval \<Rightarrow> bool" where
  "truthy JUndefined = False"
| "truthy JNull = False"
| "truthy (JBool b) = b"
| "truthy (JNum n) = (n \<noteq> NaN \<and> n \<noteq> Fin 0)"
| "truthy (JStr s) = (s \<noteq> [])"
| "truthy (JArr xs) = True"
| "truthy (JObj ps) = True"

definition js_or :: "jsval \<Rightarrow> jsval \<Rightarrow> jsval" where
  "js_or a b = (if truthy a then a else b)"

text \<open>\<^verbatim>\<open>a ?? b\<close>: the right operand only when the left is null or undefined.\<close>

definition nullish :: "jsval \<Rightarrow> bool" where
  "nullish v = (v = JUndefined \<or> v = JNull)"

definition js_coalesce :: "jsval \<Rightarrow> jsval \<Rightarrow> jsval" where
  "js_coalesce a b = (if nullish a then b else a)"

fun isNumber :: "jsval \<Rightarrow> bool" where
  "isNumber (JNum n) = True"
| "isNumber v = False"

fun numberOf :: "jsval \<Rightarrow> jsnum" where
  "numberOf (JNum n) = n"
| "numberOf v = NaN"

subsection \<open>Strings\<close>

definition toLowerChar :: "char \<Rightarrow> char" where
  "toLowerChar c =
     (let n = (of_char c :: nat) in if 65 \<le> n \<and> n \<le> 90 then char_of (n + 32) else c)"

definition toLowerCase :: "string \<Rightarrow> string" where
  "toLowerCase s = map toLowerChar s"

definition isSpace :: "char \<Rightarrow> bool" where
  "isSpace c = ((of_char c :: nat) \<in> {9, 10, 11, 12, 13, 32})"

definition trim :: "string \<Rightarrow> string" where
  "trim s = rev (dropWhile isSpace (rev (dropWhile isSpace s)))"

text \<open>\<^verbatim>\<open>s.includes(sub)\<close>: \<open>sub\<close> occurs in \<open>s\<close> as a contiguous block.\<close>

fun str_includes :: "string \<Rightarrow> string \<Rightarrow> bool" where
  "str_includes [] sub = (sub = [])"
| "str_includes (c # cs) sub = (prefix sub (c # cs) \<or> str_includes cs sub)"

fun joinWith :: "string \<Rightarrow> string list \<Rightarrow> string" where
  "joinWith sep [] = []"
| "joinWith sep [x] = x"
| "joinWith sep (x # y # ys) = x @ sep @ joinWith sep (y # ys)"

text \<open>
  \<^verbatim>\<open>String(v)\<close>. For an object the runtime calls its \<^verbatim>\<open>toString\<close> method. A
  decoded object inherits the method that answers \<^verbatim>\<open>[object Object]\<close>, unless it has
  an own property of that name: this one is no function, the inherited \<^verbatim>\<open>valueOf\<close>
  (or an own one) gives no primitive value either, and the conversion raises a TypeError.
  An array is its elements joined by commas, null and undefined elements giving the
  empty string; the conversion of an element may raise in turn. \<open>stringThrows\<close> says when
  the conversion raises and \<open>stringText\<close> is its result when it does not. The text of a
  number is the runtime's business: it is the parameter \<open>numStr\<close>, about which nothing is
  assumed.
\<close>

fun stringThrows :: "jsval \<Rightarrow> bool" where
  "stringThrows (JObj ps) = (''toString'' \<in> set (map fst ps))"
| "stringThrows (JArr xs) = list_ex stringThrows xs"
| "stringThrows v = False"

fun stringText :: "(jsnum \<Rightarrow> string) \<Rightarrow> jsval \<Rightarrow> string" where
  "stringText numStr JUndefined = ''undefined''"
| "stringText numStr JNull = ''null''"
| "stringText numStr (JBool b) = (if b then ''true'' else ''false'')"
| "stringText numStr (JNum n) = numStr n"
| "stringText numStr (JStr s) = s"
| "stringText numStr (JArr xs) =
     joinWith '','' (map (\<lambda>x. if x = JUndefined \<or> x = JNull then [] else stringText numStr x) xs)"
| "stringText numStr (JObj ps) = ''[object Object]''"

definition ToString :: "(jsnum \<Rightarrow> string) \<Rightarrow> jsval \<Rightarrow> error + string" where
  "ToString numStr v = (if stringThrows v then Inl TypeError else Inr (stringText numStr v))"

section \<open>The data of the dashboard\<close>

text \<open>One decoded message of the vision process; an absent field is \<open>JUndefined\<close>.\<close>

record VisionSample =
  h_ratio :: jsval
  v_ratio :: jsval
  left_ear :: jsval
  state :: jsval
  objects :: jsval
  volume :: jsval

definition emptySample :: VisionSample where
  "emptySample = \<lparr>h_ratio = JUndefined, v_ratio = JUndefined, left_ear = JUndefined,
     state = JUndefined, objects = JUndefined, volume = JUndefined\<rparr>"

record VisionConfig =
  hMin :: jsnum
  hMax :: jsnum
  vMin :: jsnum
  vMax :: jsnum
  earThreshold :: jsnum
  audioThreshold :: jsnum
  includeTalking :: bool
  includeObjects :: bool

definition initialVisionConfig :: VisionConfig where
  "initialVisionConfig = \<lparr>hMin = Fin (35 / 100), hMax = Fin (65 / 100), vMin = Fin (35 / 100),
     vMax = Fin (6 / 10), earThreshold = Fin (3 / 10), audioThreshold = Fin (15 / 10),
     includeTalking = True, includeObjects = True\<rparr>"

record verdict =
  focused :: bool
  reason :: string

section \<open>evaluateFocus\<close>

definition distractedObjects :: "string list" where
  "distractedObjects = [''phone'', ''cell phone'', ''tablet'', ''ipad'', ''book'']"

text \<open>
  \<^verbatim>\<open>(objects || []).map((item) => String(item).toLowerCase())\<close>: a truthy value
  that is not an array has no \<^verbatim>\<open>map\<close> method and the call raises a TypeError; so does
  the conversion of an element that \<^verbatim>\<open>String\<close> cannot convert.
\<close>

fun mapItems :: "(jsnum \<Rightarrow> string) \<Rightarrow> jsval list \<Rightarrow> error + string list" where
  "mapItems numStr [] = Inr []"
| "mapItems numStr (item # items) =
     (case ToString numStr item of
        Inl e \<Rightarrow> Inl e
      | Inr s \<Rightarrow> (case mapItems numStr items of
                    Inl e \<Rightarrow> Inl e
                  | Inr ss \<Rightarrow> Inr (toLowerCase s # ss)))"

definition normalizeObjects :: "(jsnum \<Rightarrow> string) \<Rightarrow> jsval \<Rightarrow> error + string list" where
  "normalizeObjects numStr objs =
     (case js_or objs (JArr []) of
        JArr xs \<Rightarrow> mapItems numStr xs
      | _ \<Rightarrow> Inl TypeError)"

text \<open>
  \<open>evaluateFocus\<close> closes over \<open>effectiveIncludeTalking\<close> and \<open>visionConfig\<close> of the
  render that created it; they are its second and third argument here. The sample is
  \<open>None\<close> when the payload is null or has no fields at all. The state is converted
  before the objects are.
\<close>

definition evaluateFocus ::
  "(jsnum \<Rightarrow> string) \<Rightarrow> jsval \<Rightarrow> VisionConfig \<Rightarrow> VisionSample option \<Rightarrow> error + verdict" where
  "evaluateFocus numStr effectiveIncludeTalking visionConfig visionData =
     (let d = (case visionData of None \<Rightarrow> emptySample | Some s \<Rightarrow> s);
          hRatio = h_ratio d;
          vRatio = v_ratio d;
          leftEar = left_ear d
      in case ToString numStr (js_or (state d) (JStr [])) of
           Inl e \<Rightarrow> Inl e
         | Inr stateText \<Rightarrow>
      let normalizedState = toLowerCase stateText
      in case normalizeObjects numStr (objects d) of
           Inl e \<Rightarrow> Inl e
         | Inr normalizedObjects \<Rightarrow>
             let hasDistractor = list_ex (\<lambda>item. item \<in> set distractedObjects) normalizedObjects
             in if hasDistractor then Inr \<lparr>focused = False, reason = ''distractor''\<rparr>
                else if str_includes normalizedState ''phone'' \<or> str_includes normalizedState ''book''
                  then Inr \<lparr>focused = False, reason = ''distractor''\<rparr>
                else if truthy effectiveIncludeTalking \<and> str_includes normalizedState ''talking''
                  then Inr \<lparr>focused = False, reason = ''audio''\<rparr>
                else if str_includes normalizedState ''no face''
                  then Inr \<lparr>focused = False, reason = ''no-face''\<rparr>
                else if isNumber leftEar \<and> js_lt (numberOf leftEar) (earThreshold visionConfig)
                  then Inr \<lparr>focused = False, reason = ''eyes-closed''\<rparr>
                else if normalizedState = ''focused'' \<or> normalizedState = ''at screen''
                  then Inr \<lparr>focused = True, reason = ''state''\<rparr>
                else if isNumber hRatio \<and> isNumber vRatio
                      \<and> js_ge (numberOf hRatio) (hMin visionConfig)
                      \<and> js_le (numberOf hRatio) (hMax visionConfig)
                      \<and> js_ge (numberOf vRatio) (vMin visionConfig)
                      \<and> js_le (numberOf vRatio) (vMax visionConfig)
                  then Inr \<lparr>focused = True, reason = ''centered''\<rparr>
                else Inr \<lparr>focused = False, reason = ''off-center''\<rparr>)"

subsection \<open>The rule list of the classifier\<close>

text \<open>
  The eight rules as the specification lists them, each a condition with its verdict,
  read by \<open>first_match\<close>: the first rule whose condition holds decides, and the default
  is the verdict of rule 8. The rules read the text of the state and of the objects.
\<close>

fun first_match :: "(bool \<times> 'a) list \<Rightarrow> 'a \<Rightarrow> 'a" where
  "first_match [] dflt = dflt"
| "first_match ((c, v) # rs) dflt = (if c then v else first_match rs dflt)"

definition inRange :: "jsval \<Rightarrow> jsnum \<Rightarrow> jsnum \<Rightarrow> bool" where
  "inRange v lo hi = (case v of JNum x \<Rightarrow> js_le lo x \<and> js_le x hi | _ \<Rightarrow> False)"

definition classify_rules ::
  "(jsnum \<Rightarrow> string) \<Rightarrow> bool \<Rightarrow> VisionConfig \<Rightarrow> VisionSample \<Rightarrow> (bool \<times> verdict) list" where
  "classify_rules numStr talking cfg d =
     (let st = toLowerCase (stringText numStr (js_or (state d) (JStr [])));
          objs = (case objects d of JArr xs \<Rightarrow> map (\<lambda>x. toLowerCase (stringText numStr x)) xs | _ \<Rightarrow> [])
      in [(set objs \<inter> {''phone'', ''cell phone'', ''tablet'', ''ipad'', ''book''} \<noteq> {},
             \<lparr>focused = False, reason = ''distractor''\<rparr>),
          (str_includes st ''phone'' \<or> str_includes st ''book'',
             \<lparr>focused = False, reason = ''distractor''\<rparr>),
          (talking \<and> str_includes st ''talking'',
             \<lparr>focused = False, reason = ''audio''\<rparr>),
          (str_includes st ''no face'',
             \<lparr>focused = False, reason = ''no-face''\<rparr>),
          ((case left_ear d of JNum x \<Rightarrow> js_lt x (earThreshold cfg) | _ \<Rightarrow> False),
             \<lparr>focused = False, reason = ''eyes-closed''\<rparr>),
          (st = ''focused'' \<or> st = ''at screen'',
             \<lparr>focused = True, reason = ''state''\<rparr>),
          (inRange (h_ratio d) (hMin cfg) (hMax cfg) \<and> inRange (v_ratio d) (vMin cfg) (vMax cfg),
             \<lparr>focused = True, reason = ''centered''\<rparr>)])"

definition classify_spec ::
  "(jsnum \<Rightarrow> string) \<Rightarrow> bool \<Rightarrow> VisionConfig \<Rightarrow> VisionSample \<Rightarrow> verdict" where
  "classify_spec numStr talking cfg d =
     first_match (classify_rules numStr talking cfg d) \<lparr>focused = False, reason = ''off-center''\<rparr>"

text \<open>
  The \<open>objects\<close> field of a well-formed sample: absent (or any other falsy value), or an
  array. \<open>sampleConverts\<close>: \<^verbatim>\<open>String\<close> converts the state and every element of the
  objects. \<open>sampleOK\<close>: the absent sample, or one that has both properties.
\<close>

definition objectsWellTyped :: "jsval \<Rightarrow> bool" where
  "objectsWellTyped objs = (\<not> truthy objs \<or> (case objs of JArr xs \<Rightarrow> True | _ \<Rightarrow> False))"

definition sampleConverts :: "VisionSample \<Rightarrow> bool" where
  "sampleConverts d = (\<not> stringThrows (state d)
     \<and> (case objects d of JArr xs \<Rightarrow> \<not> list_ex stringThrows xs | _ \<Rightarrow> True))"



text \<open>Concrete samples for the closed theorems below.\<close>

definition sampleC1 :: VisionSample where
  "sampleC1 = \<lparr>h_ratio = JNum (Fin (1 / 2)), v_ratio = JNum (Fin (1 / 2)), left_ear = JNum (Fin (4 / 10)),
     state = JStr ''At Screen'', objects = JArr [JStr ''Cell Phone''], volume = JUndefined\<rparr>"


section \<open>The state of the component\<close>

text \<open>
  The \<^verbatim>\<open>useState\<close> cells and \<^verbatim>\<open>useRef\<close> cells of \<^verbatim>\<open>App\<close> that the session engine
  reads or writes, in one record. Cells that only feed the page (camera preview, panel
  choice, work mode, volume, status texts) are left out. Clock readings are the
  integers of \<^verbatim>\<open>Date.now()\<close>, in milliseconds.
\<close>

record SessionSummary =
  totalSeconds :: int
  distractedSeconds :: int
  focusedSeconds :: int
  alerts :: int

record TimelineEntry =
  elapsedSeconds :: int
  entry_state :: string
  label :: string

text \<open>
  A pending \<^verbatim>\<open>setTimeout\<close> of the alert effect: the earliest clock reading at which it
  may run, and the values of the render that its callback closed over.
\<close>

record AlertTimer =
  t_due :: int
  t_focusWarningActive :: bool
  t_distractorReason :: string
  t_visionState :: string
  t_characterChoice :: string
  t_effectiveIncludeTalking :: jsval

text \<open>
  The \<^verbatim>\<open>onmessage\<close> handler of the socket closes over \<open>effectiveIncludeTalking\<close> and,
  through \<open>evaluateFocus\<close>, over \<open>visionConfig\<close> of the render in which the socket effect
  ran.
\<close>

record SocketHandler =
  h_effectiveIncludeTalking :: jsval
  h_visionConfig :: VisionConfig

text \<open>
  A decoded message. \<open>config = Some v\<close>: the payload has a truthy \<^verbatim>\<open>config\<close> whose
  \<^verbatim>\<open>include_talking\<close> property reads \<open>v\<close> (\<open>JUndefined\<close> when it has none);
  \<open>config = None\<close>: no \<^verbatim>\<open>config\<close>, or a falsy one.
\<close>

record Payload =
  sample :: VisionSample
  config :: "jsval option"

type_synonym alertDeps = "bool \<times> bool \<times> string \<times> string \<times> string \<times> (jsval \<times> nat)"
type_synonym timelineDeps = "bool \<times> bool \<times> string"

record App =
  lessonMinutes :: string
  lessonStarted :: bool
  trackingEnabled :: bool
  currentState :: string
  remainingSeconds :: int
  focusResults :: "int list"
  focusLevel :: rat
  sessionSummary :: "SessionSummary option"
  sessionTimeline :: "TimelineEntry list"
  visionState :: string
  backendConfig :: "jsval option"
  distractorReason :: string
  recentStatesRef :: "jsval list"
  alertTimeoutRef :: "nat option"
  alertQueuedRef :: bool
  sessionStartRef :: "int option"
  distractedStartRef :: "int option"
  distractedTotalRef :: int
  distractedCountRef :: int
  visionConfig :: VisionConfig
  characterChoice :: string
  alertQueue :: "string list"
  timers :: "(nat \<times> AlertTimer) list"
  nextTimerId :: nat
  alertCleanup :: bool
  socketHandler :: "SocketHandler option"
  configId :: nat
  socketDepsPrev :: "bool option"
  alertDepsPrev :: "alertDeps option"
  timelineDepsPrev :: "timelineDeps option"

text \<open>
  The last eight fields are the runtime's: the pending timeouts and the next timer id
  (ids are positive, hence truthy), whether the last run of the alert effect returned
  its cleanup function, the handler installed on the open socket, the number of config
  objects stored in \<open>backendConfig\<close> so far, which tells the object it holds from the
  earlier ones, and the dependency values of the last run of each effect (\<open>None\<close> before
  the first render).
\<close>

definition initialApp :: App where
  "initialApp = \<lparr>lessonMinutes = ''45'', lessonStarted = False, trackingEnabled = True,
     currentState = ''focused'', remainingSeconds = 0, focusResults = [], focusLevel = 1,
     sessionSummary = None, sessionTimeline = [], visionState = [], backendConfig = None,
     distractorReason = [], recentStatesRef = [], alertTimeoutRef = None, alertQueuedRef = False,
     sessionStartRef = None, distractedStartRef = None, distractedTotalRef = 0,
     distractedCountRef = 0, visionConfig = initialVisionConfig, characterChoice = ''cop'',
     alertQueue = [], timers = [], nextTimerId = 1, alertCleanup = False, socketHandler = None,
     configId = 0, socketDepsPrev = None, alertDepsPrev = None, timelineDepsPrev = None\<rparr>"

text \<open>A ref that holds a clock reading or null is truthy when it holds a non-zero one.\<close>

definition truthyRef :: "int option \<Rightarrow> bool" where
  "truthyRef r = (case r of None \<Rightarrow> False | Some t \<Rightarrow> t \<noteq> 0)"

definition refValue :: "int option \<Rightarrow> int" where
  "refValue r = (case r of None \<Rightarrow> 0 | Some t \<Rightarrow> t)"

text \<open>\<^verbatim>\<open>Math.round\<close>: the nearest integer, halves upwards.\<close>

definition mathRound :: "rat \<Rightarrow> int" where
  "mathRound x = \<lfloor>x + 1 / 2\<rfloor>"

definition roundSeconds :: "int \<Rightarrow> int" where
  "roundSeconds ms = mathRound (of_int ms / 1000)"

text \<open>\<^verbatim>\<open>xs.slice(-n)\<close>: the last \<open>n\<close> elements, all of them when there are fewer.\<close>

definition sliceLast :: "nat \<Rightarrow> 'a list \<Rightarrow> 'a list" where
  "sliceLast n xs = drop (length xs - n) xs"

definition focusWarningActive :: "App \<Rightarrow> bool" where
  "focusWarningActive st = (focusLevel st < 7 / 10)"

definition effectiveIncludeTalking :: "App \<Rightarrow> jsval" where
  "effectiveIncludeTalking st =
     js_coalesce (case backendConfig st of None \<Rightarrow> JUndefined | Some v \<Rightarrow> v)
       (JBool (includeTalking (visionConfig st)))"

section \<open>The smoother\<close>

definition pushFocusResult :: "bool \<Rightarrow> App \<Rightarrow> App" where
  "pushFocusResult isFocused st =
     (let nextResults = sliceLast 60 (focusResults st @ [if isFocused then 1 else 0]);
          average = of_int (sum_list nextResults) / of_nat (length nextResults)
      in st\<lparr>focusLevel := average,
            currentState := (if average \<ge> 7 / 10 then ''focused'' else ''distracted''),
            focusResults := nextResults\<rparr>)"

section \<open>Session start and end\<close>

fun isFinite :: "jsnum \<Rightarrow> bool" where
  "isFinite (Fin x) = True"
| "isFinite n = False"

fun finValue :: "jsnum \<Rightarrow> rat" where
  "finValue (Fin x) = x"
| "finValue n = 0"

text \<open>
  \<open>startLesson\<close>. \<^verbatim>\<open>Number(lessonMinutes)\<close> is the runtime's reading of a string as a
  number, the parameter \<open>toNumber\<close>. The product \<^verbatim>\<open>minutes * 60\<close> is taken exactly.
\<close>

definition startLesson :: "(string \<Rightarrow> jsnum) \<Rightarrow> int \<Rightarrow> App \<Rightarrow> App" where
  "startLesson toNumber now st =
     (if trim (lessonMinutes st) = [] then st
      else let minutes = toNumber (lessonMinutes st)
        in if \<not> isFinite minutes \<or> js_le minutes (Fin 0) then st
           else st\<lparr>remainingSeconds := mathRound (finValue minutes * 60),
                   sessionSummary := None,
                   sessionTimeline := [],
                   focusResults := [],
                   focusLevel := 1,
                   sessionStartRef := Some now,
                   distractedStartRef := None,
                   distractedTotalRef := 0,
                   distractedCountRef := 0,
                   lessonStarted := True\<rparr>)"

definition endLesson :: "int \<Rightarrow> App \<Rightarrow> App" where
  "endLesson endTime st =
     (let sessionStart = sessionStartRef st;
          st2 =
            (if truthyRef sessionStart then
               let st1 =
                     (if truthyRef (distractedStartRef st)
                      then st\<lparr>distractedTotalRef := distractedTotalRef st
                                  + roundSeconds (endTime - refValue (distractedStartRef st)),
                              distractedStartRef := None\<rparr>
                      else st);
                   total = max 1 (roundSeconds (endTime - refValue sessionStart));
                   distracted = distractedTotalRef st1;
                   focusedSecs = max (total - distracted) 0
               in st1\<lparr>sessionSummary := Some \<lparr>totalSeconds = total, distractedSeconds = distracted,
                         focusedSeconds = focusedSecs, alerts = distractedCountRef st1\<rparr>\<rparr>
             else st)
      in st2\<lparr>lessonStarted := False\<rparr>)"

section \<open>The most common distractor\<close>

definition normalizeState :: "(jsnum \<Rightarrow> string) \<Rightarrow> jsval \<Rightarrow> error + string" where
  "normalizeState numStr v =
     (case ToString numStr (js_or v (JStr [])) of
        Inl e \<Rightarrow> Inl e
      | Inr s \<Rightarrow> Inr (toLowerCase (trim s)))"

definition isFocusedState :: "string \<Rightarrow> bool" where
  "isFocusedState v = (v = ''focused'' \<or> v = ''at screen'')"

text \<open>
  \<open>counts\<close> and \<open>labels\<close> are plain objects, here association lists in the order in which
  the keys were added. Two keys are special in a plain object: \<^verbatim>\<open>constructor\<close> and
  \<^verbatim>\<open>__proto__\<close> are the lower-case names that every object inherits. For the first,
  \<^verbatim>\<open>counts[k] || 0\<close> reads the inherited function, the sum is a string, and the later
  test \<^verbatim>\<open>count > bestCount\<close> on that string is false; for the second the assignment
  does nothing. Either way such a label never takes part, which is what \<open>prototypeKey\<close>
  says.
\<close>

definition prototypeKey :: "string \<Rightarrow> bool" where
  "prototypeKey k = (k = ''constructor'' \<or> k = ''__proto__'')"

definition bumpCount :: "string \<Rightarrow> (string \<times> nat) list \<Rightarrow> (string \<times> nat) list" where
  "bumpCount k counts =
     (case map_of counts k of
        None \<Rightarrow> counts @ [(k, 1)]
      | Some c \<Rightarrow> map (\<lambda>(k', c'). if k' = k then (k', c' + 1) else (k', c')) counts)"

text \<open>
  The callback of \<^verbatim>\<open>states.forEach\<close> and the loop. A label that \<^verbatim>\<open>String\<close> cannot
  convert makes the callback, and with it the whole function, raise. The spelling of a
  label is stored for a key that has none yet; a stored spelling is never empty.
\<close>

definition countState ::
  "(jsnum \<Rightarrow> string) \<Rightarrow> jsval \<Rightarrow> (string \<times> nat) list \<times> (string \<times> string) list \<Rightarrow> jsval
     \<Rightarrow> error + (string \<times> nat) list \<times> (string \<times> string) list" where
  "countState numStr inclTalking acc st =
     (case normalizeState numStr st of
        Inl e \<Rightarrow> Inl e
      | Inr normalized \<Rightarrow>
          if normalized = [] \<or> isFocusedState normalized then Inr acc
          else if \<not> truthy inclTalking \<and> str_includes normalized ''talking'' then Inr acc
          else if prototypeKey normalized then Inr acc
          else (case map_of (snd acc) normalized of
                  Some l' \<Rightarrow> Inr (bumpCount normalized (fst acc), snd acc)
                | None \<Rightarrow>
                    (case ToString numStr st of
                       Inl e \<Rightarrow> Inl e
                     | Inr l \<Rightarrow> Inr (bumpCount normalized (fst acc), snd acc @ [(normalized, l)]))))"

fun countStates ::
  "(jsnum \<Rightarrow> string) \<Rightarrow> jsval \<Rightarrow> (string \<times> nat) list \<times> (string \<times> string) list \<Rightarrow> jsval list
     \<Rightarrow> error + (string \<times> nat) list \<times> (string \<times> string) list" where
  "countStates numStr inclTalking acc [] = Inr acc"
| "countStates numStr inclTalking acc (st # states) =
     (case countState numStr inclTalking acc st of
        Inl e \<Rightarrow> Inl e
      | Inr acc' \<Rightarrow> countStates numStr inclTalking acc' states)"

text \<open>
  \<^verbatim>\<open>Object.entries\<close> lists the keys that are array indices first, in ascending numeric
  order, and then the other keys in the order in which they were added.
\<close>

definition isDigit :: "char \<Rightarrow> bool" where
  "isDigit c = (48 \<le> (of_char c :: int) \<and> (of_char c :: int) \<le> 57)"

definition indexValue :: "string \<Rightarrow> int" where
  "indexValue s = foldl (\<lambda>n c. 10 * n + (of_char c - 48)) 0 s"

text \<open>An array index is the canonical decimal text of an integer from 0 to \<open>2^32 - 2\<close>.\<close>

definition isArrayIndex :: "string \<Rightarrow> bool" where
  "isArrayIndex s = (s \<noteq> [] \<and> list_all isDigit s \<and> (s = ''0'' \<or> hd s \<noteq> CHR ''0'')
     \<and> indexValue s < 4294967295)"

definition objectEntries :: "(string \<times> 'v) list \<Rightarrow> (string \<times> 'v) list" where
  "objectEntries obj =
     sort_key (\<lambda>kv. indexValue (fst kv)) (filter (\<lambda>kv. isArrayIndex (fst kv)) obj)
     @ filter (\<lambda>kv. \<not> isArrayIndex (fst kv)) obj"

definition pickBest :: "string \<times> nat \<Rightarrow> string \<times> nat \<Rightarrow> string \<times> nat" where
  "pickBest best kv = (if snd kv > snd best then kv else best)"

definition computeMostCommonDistractor :: "(jsnum \<Rightarrow> string) \<Rightarrow> jsval list \<Rightarrow> jsval \<Rightarrow> error + string" where
  "computeMostCommonDistractor numStr states inclTalking =
     (case countStates numStr inclTalking ([], []) states of
        Inl e \<Rightarrow> Inl e
      | Inr acc \<Rightarrow>
          let counts = fst acc;
              labels = snd acc;
              best = foldl pickBest ([], 0) (objectEntries counts);
              bestKey = fst best
          in Inr (if bestKey \<noteq> [] then (case map_of labels bestKey of Some l \<Rightarrow> l | None \<Rightarrow> []) else []))"

text \<open>
  The key of a label that \<^verbatim>\<open>String\<close> converts, and a label of the window that takes part
  in the count.
\<close>

definition stateKey :: "(jsnum \<Rightarrow> string) \<Rightarrow> jsval \<Rightarrow> string" where
  "stateKey numStr v = toLowerCase (trim (stringText numStr (js_or v (JStr []))))"

definition counted :: "(jsnum \<Rightarrow> string) \<Rightarrow> jsval \<Rightarrow> jsval \<Rightarrow> bool" where
  "counted numStr inclTalking s =
     (stateKey numStr s \<noteq> [] \<and> \<not> isFocusedState (stateKey numStr s)
      \<and> (truthy inclTalking \<or> \<not> str_includes (stateKey numStr s) ''talking'')
      \<and> \<not> prototypeKey (stateKey numStr s))"

text \<open>
  The resolver as the specification describes it: among the keys of the counted labels,
  the first one in the order of observation whose count is the highest
  (\<open>mostFrequentFirst\<close>), and for it the spelling of the first label with that key
  (\<open>firstLabel\<close>). \<open>firstSeen\<close>, \<open>countKeys\<close>, \<open>setLabelOnce\<close> and \<open>labelsOf\<close> describe the
  two objects that the code builds.
\<close>

definition firstSeen :: "'a list \<Rightarrow> 'a list" where
  "firstSeen ks = rev (remdups (rev ks))"

definition mostFrequentFirst :: "'a list \<Rightarrow> 'a option" where
  "mostFrequentFirst ks = find (\<lambda>k. \<forall>k' \<in> set ks. count_list ks k' \<le> count_list ks k) ks"

definition setLabelOnce :: "string \<Rightarrow> string \<Rightarrow> (string \<times> string) list \<Rightarrow> (string \<times> string) list" where
  "setLabelOnce k l labels = (case map_of labels k of None \<Rightarrow> labels @ [(k, l)] | Some l' \<Rightarrow> labels)"

definition countKeys :: "string list \<Rightarrow> (string \<times> nat) list" where
  "countKeys ks = foldl (\<lambda>c k. bumpCount k c) [] ks"

definition labelsOf :: "(jsnum \<Rightarrow> string) \<Rightarrow> jsval list \<Rightarrow> (string \<times> string) list" where
  "labelsOf numStr cs =
     foldl (\<lambda>l s. setLabelOnce (stateKey numStr s) (stringText numStr s) l) [] cs"

definition keysOf :: "(jsnum \<Rightarrow> string) \<Rightarrow> jsval \<Rightarrow> jsval list \<Rightarrow> string list" where
  "keysOf numStr inclTalking states =
     map (stateKey numStr) (filter (counted numStr inclTalking) states)"

definition firstLabel :: "(jsnum \<Rightarrow> string) \<Rightarrow> jsval \<Rightarrow> jsval list \<Rightarrow> string \<Rightarrow> string" where
  "firstLabel numStr inclTalking states k =
     (case find (\<lambda>s. stateKey numStr s = k) (filter (counted numStr inclTalking) states) of
        None \<Rightarrow> [] | Some s \<Rightarrow> stringText numStr s)"

section \<open>Alerts\<close>

definition characterAssets :: "(string \<times> (string \<times> string) list) list" where
  "characterAssets =
     [(''cop'', [(''label'', ''Cop''),
                 (''filler'', ''/videos/cop/cop-filler.mp4''),
                 (''side'', ''/videos/cop/Cop-side.mp4''),
                 (''up'', ''/videos/cop/Cop-up.mp4''),
                 (''phone'', ''/videos/cop/Cop-phone.mp4''),
                 (''talking'', ''/videos/cop/Cop-talking.mp4'')]),
      (''animegirl'', [(''label'', ''Anime Girl''),
                 (''filler'', ''/videos/animegirl/animegirl-filler.mp4''),
                 (''side'', ''/videos/animegirl/animegirl-side.mp4''),
                 (''up'', ''/videos/animegirl/animegirl-up.mp4''),
                 (''phone'', ''/videos/animegirl/animegirl-phone.mp4''),
                 (''talking'', ''/videos/animegirl/animegirl-talking.mp4'')])]"

text \<open>\<^verbatim>\<open>characterAssets[characterChoice]?.[alertKey]\<close>; every asset is a non-empty string.\<close>

definition assetFor :: "string \<Rightarrow> string \<Rightarrow> string option" where
  "assetFor choice alertKey =
     (case map_of characterAssets choice of None \<Rightarrow> None | Some assets \<Rightarrow> map_of assets alertKey)"

definition alertKeyForState :: "jsval \<Rightarrow> string \<Rightarrow> string" where
  "alertKeyForState effIncludeTalking v =
     (let normalized = toLowerCase (trim v)
      in if normalized = [] then []
         else if str_includes normalized ''left'' \<or> str_includes normalized ''right'' then ''side''
         else if str_includes normalized ''up'' then ''up''
         else if str_includes normalized ''phone'' \<or> str_includes normalized ''book''
                 \<or> str_includes normalized ''down'' then ''phone''
         else if str_includes normalized ''eyes closed'' then ''up''
         else if str_includes normalized ''talking''
           then (if truthy effIncludeTalking then ''talking'' else [])
         else [])"

definition clearAlertTimeout :: "App \<Rightarrow> App" where
  "clearAlertTimeout st =
     (case alertTimeoutRef st of
        None \<Rightarrow> st
      | Some i \<Rightarrow> st\<lparr>timers := filter (\<lambda>p. fst p \<noteq> i) (timers st), alertTimeoutRef := None\<rparr>)"

text \<open>The cleanup function of the alert effect, when the last run returned one.\<close>

definition alertEffectCleanup :: "App \<Rightarrow> App" where
  "alertEffectCleanup st =
     (if alertCleanup st then (clearAlertTimeout st)\<lparr>alertCleanup := False\<rparr> else st)"

definition alertEffect :: "int \<Rightarrow> App \<Rightarrow> App" where
  "alertEffect now st =
     (if \<not> lessonStarted st then st
      else if \<not> focusWarningActive st then (clearAlertTimeout st)\<lparr>alertQueuedRef := False\<rparr>
      else if alertQueuedRef st then st
      else let startTime = (if truthyRef (distractedStartRef st)
                            then refValue (distractedStartRef st) else now);
               elapsed = now - startTime;
               remaining = max (4000 - elapsed) 0;
               timer = \<lparr>t_due = now + remaining,
                        t_focusWarningActive = focusWarningActive st,
                        t_distractorReason = distractorReason st,
                        t_visionState = visionState st,
                        t_characterChoice = characterChoice st,
                        t_effectiveIncludeTalking = effectiveIncludeTalking st\<rparr>
           in st\<lparr>timers := timers st @ [(nextTimerId st, timer)],
                 alertTimeoutRef := Some (nextTimerId st),
                 nextTimerId := nextTimerId st + 1,
                 alertCleanup := True\<rparr>)"

text \<open>The callback of the timeout, with the values its closure holds.\<close>

definition alertCallback :: "AlertTimer \<Rightarrow> App \<Rightarrow> App" where
  "alertCallback t st =
     (if \<not> t_focusWarningActive t \<or> alertQueuedRef st then st
      else let stateCandidate = (if t_distractorReason t \<noteq> [] then t_distractorReason t
                                 else t_visionState t);
               alertKey = alertKeyForState (t_effectiveIncludeTalking t) stateCandidate
           in if alertKey = [] then st
              else case assetFor (t_characterChoice t) alertKey of
                     None \<Rightarrow> st
                   | Some asset \<Rightarrow> st\<lparr>alertQueuedRef := True, alertQueue := alertQueue st @ [asset]\<rparr>)"

text \<open>
  The runtime runs the callback of a pending timeout once, not before its delay has
  passed; a timeout that is not pending, or not yet due, does not run.
\<close>

definition timerFire :: "nat \<Rightarrow> int \<Rightarrow> App \<Rightarrow> App" where
  "timerFire i now st =
     (case map_of (timers st) i of
        None \<Rightarrow> st
      | Some t \<Rightarrow> if now < t_due t then st
                  else alertCallback t (st\<lparr>timers := filter (\<lambda>p. fst p \<noteq> i) (timers st)\<rparr>))"

section \<open>The timeline\<close>

definition timelineEffect :: "int \<Rightarrow> App \<Rightarrow> App" where
  "timelineEffect now st =
     (if \<not> lessonStarted st \<or> \<not> truthyRef (sessionStartRef st) then st
      else let elapsed = roundSeconds (now - refValue (sessionStartRef st));
               st1 = (if focusWarningActive st \<and> \<not> truthyRef (distractedStartRef st)
                      then st\<lparr>distractedStartRef := Some now,
                              distractedCountRef := distractedCountRef st + 1,
                              sessionTimeline := sessionTimeline st
                                @ [\<lparr>elapsedSeconds = elapsed, entry_state = ''distracted'',
                                    label = (if distractorReason st \<noteq> [] then distractorReason st
                                             else ''distracted'')\<rparr>]\<rparr>
                      else st)
           in if \<not> focusWarningActive st1 \<and> truthyRef (distractedStartRef st1)
              then st1\<lparr>distractedTotalRef := distractedTotalRef st1
                          + roundSeconds (now - refValue (distractedStartRef st1)),
                       distractedStartRef := None,
                       sessionTimeline := sessionTimeline st1
                         @ [\<lparr>elapsedSeconds = elapsed, entry_state = ''focused'', label = ''focused''\<rparr>]\<rparr>
              else st1)"

section \<open>The socket\<close>

text \<open>
  The end of the handler: \<^verbatim>\<open>evaluateFocus(payload)\<close> and the push of its verdict. When
  \<open>evaluateFocus\<close> raises, the \<^verbatim>\<open>catch\<close> of the handler takes over and nothing is pushed.
\<close>

definition pushVerdict :: "(jsnum \<Rightarrow> string) \<Rightarrow> SocketHandler \<Rightarrow> Payload option \<Rightarrow> App \<Rightarrow> App" where
  "pushVerdict numStr h payload st =
     (case evaluateFocus numStr (h_effectiveIncludeTalking h) (h_visionConfig h) (map_option sample payload) of
        Inl e \<Rightarrow> st
      | Inr result \<Rightarrow> pushFocusResult (focused result) st)"

text \<open>
  The handler runs in a \<^verbatim>\<open>try\<close> block: when a statement raises, the writes made before
  it stay and the rest of the handler is skipped. \<^verbatim>\<open>String(payload.state)\<close> comes first;
  then the cells \<open>visionState\<close> and \<open>backendConfig\<close> are written (\<open>storePayload\<close>);
  \<open>computeMostCommonDistractor\<close> runs after the window ref has been written.
\<close>

definition storePayload :: "jsval \<Rightarrow> string \<Rightarrow> Payload option \<Rightarrow> App \<Rightarrow> App" where
  "storePayload eit incomingState payload st =
     (let st1 = st\<lparr>visionState :=
                  (if \<not> truthy eit \<and> str_includes (toLowerCase incomingState) ''talking''
                   then ''Focused'' else incomingState)\<rparr>
      in case payload of
           None \<Rightarrow> st1
         | Some p \<Rightarrow> (case config p of
                       None \<Rightarrow> st1
                     | Some c \<Rightarrow> st1\<lparr>backendConfig := Some c, configId := configId st1 + 1\<rparr>))"

definition onmessage :: "(jsnum \<Rightarrow> string) \<Rightarrow> SocketHandler \<Rightarrow> Payload option \<Rightarrow> App \<Rightarrow> App" where
  "onmessage numStr h payload st =
     (let eit = h_effectiveIncludeTalking h;
          pstate = (case payload of None \<Rightarrow> JUndefined | Some p \<Rightarrow> state (sample p))
      in case (if truthy pstate then ToString numStr pstate else Inr []) of
           Inl e \<Rightarrow> st
         | Inr incomingState \<Rightarrow>
             let st2 = storePayload eit incomingState payload st
             in if truthy pstate
                then let nextStates = sliceLast 60 (recentStatesRef st2 @ [pstate]);
                         st3 = st2\<lparr>recentStatesRef := nextStates\<rparr>
                     in (case computeMostCommonDistractor numStr nextStates eit of
                           Inl e \<Rightarrow> st3
                         | Inr r \<Rightarrow> pushVerdict numStr h payload (st3\<lparr>distractorReason := r\<rparr>))
                else pushVerdict numStr h payload st2)"

text \<open>
  The socket effect depends on \<open>trackingEnabled\<close> alone: it installs a handler with the
  values of the render in which it runs, and no later render replaces that handler.
\<close>

definition socketEffect :: "App \<Rightarrow> App" where
  "socketEffect st =
     (if trackingEnabled st
      then st\<lparr>socketHandler := Some \<lparr>h_effectiveIncludeTalking = effectiveIncludeTalking st,
                                       h_visionConfig = visionConfig st\<rparr>\<rparr>
      else st\<lparr>socketHandler := None\<rparr>)"

section \<open>Renders and events\<close>

text \<open>
  React compares the dependencies of an effect with \<^verbatim>\<open>Object.is\<close>: primitive values by
  value, arrays and objects by identity. The one dependency that can be an array or an
  object is \<open>effectiveIncludeTalking\<close>, when the config object in \<open>backendConfig\<close> has
  such an \<^verbatim>\<open>include_talking\<close>; two readings of it are the same object exactly when they
  come from the same config object. So this dependency is taken together with
  \<open>configId\<close>. The model has one zero.
\<close>

fun isPrimitive :: "jsval \<Rightarrow> bool" where
  "isPrimitive (JArr xs) = False"
| "isPrimitive (JObj ps) = False"
| "isPrimitive v = True"

definition sameValue :: "jsval \<times> nat \<Rightarrow> jsval \<times> nat \<Rightarrow> bool" where
  "sameValue a b = (fst a = fst b \<and> (isPrimitive (fst a) \<or> snd a = snd b))"

definition alertDepsOf :: "App \<Rightarrow> alertDeps" where
  "alertDepsOf st = (focusWarningActive st, lessonStarted st, distractorReason st, visionState st,
     characterChoice st, (effectiveIncludeTalking st, configId st))"

definition timelineDepsOf :: "App \<Rightarrow> timelineDeps" where
  "timelineDepsOf st = (focusWarningActive st, lessonStarted st, distractorReason st)"

definition alertDepsSame :: "alertDeps option \<Rightarrow> alertDeps \<Rightarrow> bool" where
  "alertDepsSame prev new =
     (case prev of
        None \<Rightarrow> False
      | Some (w, l, d, v, c, e) \<Rightarrow>
          (case new of (w', l', d', v', c', e') \<Rightarrow>
             w = w' \<and> l = l' \<and> d = d' \<and> v = v' \<and> c = c' \<and> sameValue e e'))"

text \<open>
  One render and its effects, in the order of their declaration: the socket effect, the
  alert effect (after its cleanup) and the timeline effect, each only when one of its
  dependencies changed. Both effects read the clock; the model gives them one reading.
\<close>

definition socketPart :: "App \<Rightarrow> App" where
  "socketPart st =
     (if socketDepsPrev st = Some (trackingEnabled st) then st
      else (socketEffect st)\<lparr>socketDepsPrev := Some (trackingEnabled st)\<rparr>)"

definition alertPart :: "int \<Rightarrow> App \<Rightarrow> App" where
  "alertPart now st =
     (if alertDepsSame (alertDepsPrev st) (alertDepsOf st) then st
      else (alertEffect now (alertEffectCleanup st))\<lparr>alertDepsPrev := Some (alertDepsOf st)\<rparr>)"

definition timelinePart :: "int \<Rightarrow> App \<Rightarrow> App" where
  "timelinePart now st =
     (if timelineDepsPrev st = Some (timelineDepsOf st) then st
      else (timelineEffect now st)\<lparr>timelineDepsPrev := Some (timelineDepsOf st)\<rparr>)"

definition commit :: "int \<Rightarrow> App \<Rightarrow> App" where
  "commit now st = timelinePart now (alertPart now (socketPart st))"

datatype event =
    SetLessonMinutes string
  | SetCharacterChoice string
  | SetVisionConfig VisionConfig
  | ToggleTracking
  | SimulateState
  | StartLesson
  | EndLesson
  | Message "Payload option"
  | SocketClose
  | TimerFire nat
  | CountdownTick

definition handle :: "(jsnum \<Rightarrow> string) \<Rightarrow> (string \<Rightarrow> jsnum) \<Rightarrow> int \<Rightarrow> event \<Rightarrow> App \<Rightarrow> App" where
  "handle numStr toNumber now ev st =
     (case ev of
        SetLessonMinutes s \<Rightarrow> st\<lparr>lessonMinutes := s\<rparr>
      | SetCharacterChoice c \<Rightarrow> st\<lparr>characterChoice := c\<rparr>
      | SetVisionConfig c \<Rightarrow> st\<lparr>visionConfig := c\<rparr>
      | ToggleTracking \<Rightarrow> st\<lparr>trackingEnabled := \<not> trackingEnabled st\<rparr>
      | SimulateState \<Rightarrow>
          st\<lparr>currentState := (if currentState st = ''focused'' then ''distracted'' else ''focused'')\<rparr>
      | StartLesson \<Rightarrow> startLesson toNumber now st
      | EndLesson \<Rightarrow> endLesson now st
      | Message payload \<Rightarrow>
          (case socketHandler st of None \<Rightarrow> st | Some h \<Rightarrow> onmessage numStr h payload st)
      | SocketClose \<Rightarrow> st\<lparr>visionState := []\<rparr>
      | TimerFire i \<Rightarrow> timerFire i now st
      | CountdownTick \<Rightarrow>
          (if lessonStarted st \<and> remainingSeconds st > 0
           then st\<lparr>remainingSeconds := (if remainingSeconds st \<le> 1 then 0 else remainingSeconds st - 1)\<rparr>
           else st))"

text \<open>
  An event, its handler and the render that follows. Every event is taken to be followed
  by its own render; the clock reading of the handler is also that of the effects.
\<close>

definition step :: "(jsnum \<Rightarrow> string) \<Rightarrow> (string \<Rightarrow> jsnum) \<Rightarrow> int \<times> event \<Rightarrow> App \<Rightarrow> App" where
  "step numStr toNumber e st = commit (fst e) (handle numStr toNumber (fst e) (snd e) st)"

fun run :: "(jsnum \<Rightarrow> string) \<Rightarrow> (string \<Rightarrow> jsnum) \<Rightarrow> (int \<times> event) list \<Rightarrow> App \<Rightarrow> App" where
  "run numStr toNumber [] st = st"
| "run numStr toNumber (e # es) st = run numStr toNumber es (step numStr toNumber e st)"

text \<open>The first render, at clock reading \<open>now\<close>.\<close>

definition mount :: "int \<Rightarrow> App" where
  "mount now = commit now initialApp"

section \<open>Notions of the specification\<close>





section \<open>Concrete runs\<close>

text \<open>A message that carries only a state label, and a reading of two form inputs.\<close>

definition stateMessage :: "string \<Rightarrow> event" where
  "stateMessage s = Message (Some \<lparr>sample = emptySample\<lparr>state := JStr s\<rparr>, config = None\<rparr>)"

definition numberOfDecimal :: "string \<Rightarrow> jsnum" where
  "numberOfDecimal s = (if s = ''45'' then Fin 45 else if s = ''-5'' then Fin (- 5) else NaN)"

text \<open>
  A session that starts at 1900 ms with two distractions of 1500 ms each, from 2000 to
  3500 and from 3700 to 5200, where it ends.
\<close>

definition sessionC3 :: "(int \<times> event) list" where
  "sessionC3 = [(1900, StartLesson), (2000, stateMessage ''no face''), (2500, stateMessage ''focused''),
     (3000, stateMessage ''focused''), (3500, stateMessage ''focused''), (3700, stateMessage ''no face''),
     (4200, stateMessage ''focused''), (5200, stateMessage ''focused'')]"



text \<open>
  \<open>messageKeeps st s\<close>: the state \<open>s\<close> differs from \<open>st\<close> at most in the cells that the
  handler of a message writes before it pushes a verdict.
\<close>

definition messageKeeps :: "App \<Rightarrow> App \<Rightarrow> bool" where
  "messageKeeps st s = (lessonMinutes s = lessonMinutes st \<and> lessonStarted s = lessonStarted st
     \<and> trackingEnabled s = trackingEnabled st \<and> currentState s = currentState st
     \<and> remainingSeconds s = remainingSeconds st \<and> focusResults s = focusResults st
     \<and> focusLevel s = focusLevel st \<and> sessionSummary s = sessionSummary st
     \<and> sessionTimeline s = sessionTimeline st \<and> alertTimeoutRef s = alertTimeoutRef st
     \<and> alertQueuedRef s = alertQueuedRef st \<and> sessionStartRef s = sessionStartRef st
     \<and> distractedStartRef s = distractedStartRef st \<and> distractedTotalRef s = distractedTotalRef st
     \<and> distractedCountRef s = distractedCountRef st \<and> visionConfig s = visionConfig st
     \<and> characterChoice s = characterChoice st \<and> alertQueue s = alertQueue st
     \<and> timers s = timers st \<and> nextTimerId s = nextTimerId st \<and> alertCleanup s = alertCleanup st
     \<and> socketHandler s = socketHandler st \<and> socketDepsPrev s = socketDepsPrev st
     \<and> alertDepsPrev s = alertDepsPrev st \<and> timelineDepsPrev s = timelineDepsPrev st)"


definition windowInvariant :: "App \<Rightarrow> bool" where
  "windowInvariant st = (list_all (\<lambda>x. x = 0 \<or> x = 1) (focusResults st)
     \<and> 0 \<le> focusLevel st \<and> focusLevel st \<le> 1)"

section \<open>Sessions and episodes\<close>

text \<open>
  An episode is a maximal run of renders in which the smoothed state is distracted
  (\<open>focusWarningActive\<close>); \<open>completedEpisodes prev bs\<close> counts the steps from distracted to
  focused in the sequence \<open>bs\<close> of smoothed states that follows the state \<open>prev\<close>.
  \<open>sessionEq\<close> relates two states that agree on the cells of the session.
\<close>

definition sessionEq :: "App \<Rightarrow> App \<Rightarrow> bool" where
  "sessionEq a b = (lessonStarted a = lessonStarted b \<and> sessionStartRef a = sessionStartRef b
     \<and> distractedStartRef a = distractedStartRef b \<and> distractedTotalRef a = distractedTotalRef b
     \<and> distractedCountRef a = distractedCountRef b \<and> sessionTimeline a = sessionTimeline b
     \<and> focusLevel a = focusLevel b \<and> distractorReason a = distractorReason b)"

fun completedEpisodes :: "bool \<Rightarrow> bool list \<Rightarrow> nat" where
  "completedEpisodes prev [] = 0"
| "completedEpisodes prev (b # bs) = (if prev \<and> \<not> b then 1 else 0) + completedEpisodes b bs"

fun statesOf :: "(jsnum \<Rightarrow> string) \<Rightarrow> (string \<Rightarrow> jsnum) \<Rightarrow> (int \<times> event) list \<Rightarrow> App \<Rightarrow> App list" where
  "statesOf numStr toNumber [] st = []"
| "statesOf numStr toNumber (e # es) st =
     step numStr toNumber e st # statesOf numStr toNumber es (step numStr toNumber e st)"

definition startAccepted :: "(string \<Rightarrow> jsnum) \<Rightarrow> App \<Rightarrow> bool" where
  "startAccepted toNumber st = (trim (lessonMinutes st) \<noteq> [] \<and> isFinite (toNumber (lessonMinutes st))
     \<and> \<not> js_le (toNumber (lessonMinutes st)) (Fin 0))"

fun sessionEvent :: "int \<times> event \<Rightarrow> bool" where
  "sessionEvent (t, StartLesson) = False"
| "sessionEvent (t, EndLesson) = False"
| "sessionEvent (t, e) = (t \<noteq> 0)"

definition sessionInv :: "App \<Rightarrow> bool" where
  "sessionInv st = (lessonStarted st \<and> truthyRef (sessionStartRef st)
     \<and> timelineDepsPrev st = Some (timelineDepsOf st)
     \<and> (truthyRef (distractedStartRef st) \<longleftrightarrow> focusWarningActive st))"

text \<open>The state before the timeline effect of a commit.\<close>

definition beforeTimeline :: "int \<Rightarrow> App \<Rightarrow> App" where
  "beforeTimeline now st = alertPart now (socketPart st)"

text \<open>What the timeline effect does to a session in which the open-episode ref agrees with
  the smoothed state of the render before.\<close>

definition crossingEntry :: "int \<Rightarrow> App \<Rightarrow> TimelineEntry list" where
  "crossingEntry now st =
     (if focusWarningActive st
      then [\<lparr>elapsedSeconds = roundSeconds (now - refValue (sessionStartRef st)),
              entry_state = ''distracted'',
              label = (if distractorReason st \<noteq> [] then distractorReason st else ''distracted'')\<rparr>]
      else [\<lparr>elapsedSeconds = roundSeconds (now - refValue (sessionStartRef st)),
              entry_state = ''focused'', label = ''focused''\<rparr>])"

definition fwaTrace :: "(jsnum \<Rightarrow> string) \<Rightarrow> (string \<Rightarrow> jsnum) \<Rightarrow> (int \<times> event) list \<Rightarrow> App \<Rightarrow> bool list" where
  "fwaTrace numStr toNumber tr st = map focusWarningActive (statesOf numStr toNumber tr st)"

text \<open>
  The remote process echoes a config with \<^verbatim>\<open>include_talking: false\<close>; the next message
  reports talking, with the gaze at the centre.
\<close>

definition echoMessage :: event where
  "echoMessage = Message (Some \<lparr>sample = emptySample\<lparr>state := JStr ''focused''\<rparr>,
     config = Some (JBool False)\<rparr>)"

definition talkingSample :: VisionSample where
  "talkingSample = emptySample\<lparr>state := JStr ''Talking'', h_ratio := JNum (Fin (1 / 2)),
     v_ratio := JNum (Fin (1 / 2))\<rparr>"

definition afterEcho :: App where
  "afterEcho = run (\<lambda>n. []) numberOfDecimal [(1000, echoMessage)] (mount 500)"

section \<open>Invariants of the alert scheduler\<close>

text \<open>
  During an episode that began at \<open>E\<close>, at most one timeout is pending; it is the one the
  ref holds, its cleanup is registered and it is due no earlier than \<open>E + 4000\<close>
  (\<open>timerOK\<close>). The queue is the queue \<open>q0\<close> of the onset, with one more asset exactly when
  the queued flag is set (\<open>queueOK\<close>). \<open>depsRecorded\<close>: the last run of the alert effect
  saw the current smoothed state and started flag.
\<close>

definition timerOK :: "int \<Rightarrow> App \<Rightarrow> bool" where
  "timerOK E st =
     (case timers st of
        [] \<Rightarrow> True
      | [p] \<Rightarrow> alertTimeoutRef st = Some (fst p) \<and> alertCleanup st
               \<and> E + 4000 \<le> t_due (snd p) \<and> t_focusWarningActive (snd p)
      | _ \<Rightarrow> False)"

definition queueOK :: "string list \<Rightarrow> App \<Rightarrow> bool" where
  "queueOK q0 st = (if alertQueuedRef st then (\<exists>a. alertQueue st = q0 @ [a]) else alertQueue st = q0)"

definition depsRecorded :: "App \<Rightarrow> bool" where
  "depsRecorded st =
     (case alertDepsPrev st of
        None \<Rightarrow> False
      | Some d \<Rightarrow> fst d = focusWarningActive st \<and> fst (snd d) = lessonStarted st)"

definition alertFocused :: "App \<Rightarrow> bool" where
  "alertFocused st = (sessionInv st \<and> \<not> focusWarningActive st \<and> timers st = []
     \<and> \<not> alertQueuedRef st \<and> depsRecorded st)"

definition alertEpisode :: "int \<Rightarrow> string list \<Rightarrow> App \<Rightarrow> bool" where
  "alertEpisode E q0 st = (sessionInv st \<and> focusWarningActive st \<and> distractedStartRef st = Some E
     \<and> timerOK E st \<and> queueOK q0 st \<and> depsRecorded st)"

definition remainingDelay :: "int \<Rightarrow> App \<Rightarrow> int" where
  "remainingDelay now st =
     max (4000 - (now - (if truthyRef (distractedStartRef st) then refValue (distractedStartRef st) else now))) 0"

text \<open>Events and the cells of the alert scheduler.\<close>

fun isTimerFire :: "event \<Rightarrow> bool" where
  "isTimerFire (TimerFire i) = True"
| "isTimerFire e = False"

definition stateCandidate :: "AlertTimer \<Rightarrow> string" where
  "stateCandidate tm = (if t_distractorReason tm \<noteq> [] then t_distractorReason tm else t_visionState tm)"

definition resolvedAsset :: "AlertTimer \<Rightarrow> string option" where
  "resolvedAsset tm =
     (let alertKey = alertKeyForState (t_effectiveIncludeTalking tm) (stateCandidate tm)
      in if alertKey = [] then None else assetFor (t_characterChoice tm) alertKey)"

text \<open>The scheduler in every reachable state.\<close>

definition timerPending :: "App \<Rightarrow> bool" where
  "timerPending st =
     (case timers st of
        [] \<Rightarrow> True
      | [p] \<Rightarrow> alertTimeoutRef st = Some (fst p) \<and> alertCleanup st \<and> t_focusWarningActive (snd p)
      | _ \<Rightarrow> False)"

definition schedulerInv :: "App \<Rightarrow> bool" where
  "schedulerInv st = (depsRecorded st \<and> timerPending st
     \<and> (lessonStarted st \<and> \<not> focusWarningActive st \<longrightarrow> timers st = [] \<and> \<not> alertQueuedRef st)
     \<and> (\<not> lessonStarted st \<longrightarrow> timers st = []))"

text \<open>
  The alert that the current render would resolve: the asset of the active character for
  the category of the current label. \<open>closureHolds\<close>: a timeout whose closure holds the
  values of the current render. \<open>closureCurrent\<close>: the last run of the alert effect saw
  the current dependencies, and so did the closure of every pending timeout.
  \<open>dueBy T\<close>: every pending timeout is due at the clock reading \<open>T\<close> at the latest.
  \<open>idleUnresolved\<close>: during an episode no timeout is pending and no alert is queued only
  when the current label resolves to no asset.
\<close>

definition currentAsset :: "App \<Rightarrow> string option" where
  "currentAsset st =
     (let candidate = (if distractorReason st \<noteq> [] then distractorReason st else visionState st);
          alertKey = alertKeyForState (effectiveIncludeTalking st) candidate
      in if alertKey = [] then None else assetFor (characterChoice st) alertKey)"

definition closureHolds :: "App \<Rightarrow> AlertTimer \<Rightarrow> bool" where
  "closureHolds st tm = (t_focusWarningActive tm = focusWarningActive st
     \<and> t_distractorReason tm = distractorReason st \<and> t_visionState tm = visionState st
     \<and> t_characterChoice tm = characterChoice st
     \<and> t_effectiveIncludeTalking tm = effectiveIncludeTalking st)"

definition closureCurrent :: "App \<Rightarrow> bool" where
  "closureCurrent st = (alertDepsSame (alertDepsPrev st) (alertDepsOf st)
     \<and> list_all (\<lambda>p. closureHolds st (snd p)) (timers st))"

definition dueBy :: "int \<Rightarrow> App \<Rightarrow> bool" where
  "dueBy T st = list_all (\<lambda>p. t_due (snd p) \<le> T) (timers st)"

definition idleUnresolved :: "App \<Rightarrow> bool" where
  "idleUnresolved st = (timers st = [] \<and> \<not> alertQueuedRef st \<longrightarrow> currentAsset st = None)"

text \<open>
  An episode in which the label changes during the wait: "No Face", which has no alert,
  at the onset, and then "Phone" three times.
\<close>

definition beforeC4 :: App where
  "beforeC4 = run (\<lambda>n. []) numberOfDecimal [(1950, stateMessage ''focused'')]
     (step (\<lambda>n. []) numberOfDecimal (1900, StartLesson) (run (\<lambda>n. []) numberOfDecimal [] (mount 500)))"

definition episodeC4 :: "(int \<times> event) list" where
  "episodeC4 = [(2500, stateMessage ''Phone''), (3000, stateMessage ''Phone''),
     (3500, stateMessage ''Phone'')]"

definition onsetC4 :: App where
  "onsetC4 = step (\<lambda>n. []) numberOfDecimal (2000, stateMessage ''No Face'') beforeC4"

definition duringC4 :: App where
  "duringC4 = run (\<lambda>n. []) numberOfDecimal episodeC4 onsetC4"

section \<open>Properties of the classifier\<close>

lemma ToString_converts: "\<not> stringThrows v \<Longrightarrow> ToString numStr v = Inr (stringText numStr v)"
  by (simp add: ToString_def)

lemma ToString_throws: "stringThrows v \<Longrightarrow> ToString numStr v = Inl TypeError"
  by (simp add: ToString_def)

lemma ToString_Inr_iff: "ToString numStr v = Inr s \<longleftrightarrow> \<not> stringThrows v \<and> s = stringText numStr v"
  by (auto simp: ToString_def)

lemma stringThrows_or [simp]: "stringThrows (js_or v (JStr [])) = stringThrows v"
  by (cases v) (simp_all add: js_or_def)

lemma mapItems_char:
  "mapItems numStr xs =
     (if list_ex stringThrows xs then Inl TypeError
      else Inr (map (\<lambda>x. toLowerCase (stringText numStr x)) xs))"
  by (induction xs) (simp_all add: ToString_def)

lemma normalizeObjects_wellTyped:
  "objectsWellTyped objs \<Longrightarrow>
   normalizeObjects numStr objs = (case objs of JArr xs \<Rightarrow> mapItems numStr xs | _ \<Rightarrow> Inr [])"
  by (cases objs) (auto simp: objectsWellTyped_def normalizeObjects_def js_or_def)

lemma normalizeObjects_illTyped:
  "\<not> objectsWellTyped objs \<Longrightarrow> normalizeObjects numStr objs = Inl TypeError"
  by (cases objs) (auto simp: objectsWellTyped_def normalizeObjects_def js_or_def)

lemma normalizeObjects_converts:
  assumes "objectsWellTyped (objects d)" and "sampleConverts d"
  shows "normalizeObjects numStr (objects d)
     = Inr (case objects d of JArr xs \<Rightarrow> map (\<lambda>x. toLowerCase (stringText numStr x)) xs | _ \<Rightarrow> [])"
  using assms
  by (cases "objects d") (simp_all add: normalizeObjects_wellTyped sampleConverts_def mapItems_char)

lemma hasDistractor_iff:
  "list_ex (\<lambda>item. item \<in> set distractedObjects) objs
     \<longleftrightarrow> set objs \<inter> {''phone'', ''cell phone'', ''tablet'', ''ipad'', ''book''} \<noteq> {}"
  unfolding list_ex_iff distractedObjects_def by auto

lemma inRange_iff:
  "inRange v lo hi \<longleftrightarrow> isNumber v \<and> js_ge (numberOf v) lo \<and> js_le (numberOf v) hi"
  by (cases v) (simp_all add: inRange_def js_ge_def)

lemma ear_iff:
  "(case v of JNum x \<Rightarrow> js_lt x t | _ \<Rightarrow> False) \<longleftrightarrow> isNumber v \<and> js_lt (numberOf v) t"
  by (cases v) simp_all

lemma evaluateFocus_refines:
  assumes "objectsWellTyped (objects d)" and "sampleConverts d"
  shows "evaluateFocus numStr eit cfg (Some d) = Inr (classify_spec numStr (truthy eit) cfg d)"
proof -
  from assms(2) have "\<not> stringThrows (js_or (state d) (JStr []))"
    by (simp add: sampleConverts_def)
  then have s: "ToString numStr (js_or (state d) (JStr []))
      = Inr (stringText numStr (js_or (state d) (JStr [])))"
    by (rule ToString_converts)
  show ?thesis
    using normalizeObjects_converts[OF assms, of numStr]
    by (simp add: evaluateFocus_def s classify_spec_def classify_rules_def Let_def hasDistractor_iff
        inRange_iff ear_iff)
qed

lemma evaluateFocus_state_throws:
  "stringThrows (state d) \<Longrightarrow> evaluateFocus numStr eit cfg (Some d) = Inl TypeError"
  by (simp add: evaluateFocus_def Let_def ToString_def)

lemma evaluateFocus_objects_throw:
  assumes "\<not> objectsWellTyped (objects d) \<or> (\<exists>xs. objects d = JArr xs \<and> list_ex stringThrows xs)"
  shows "evaluateFocus numStr eit cfg (Some d) = Inl TypeError"
proof -
  have "normalizeObjects numStr (objects d) = Inl TypeError"
    using assms
  proof
    assume "\<not> objectsWellTyped (objects d)"
    then show ?thesis by (rule normalizeObjects_illTyped)
  next
    assume "\<exists>xs. objects d = JArr xs \<and> list_ex stringThrows xs"
    then show ?thesis by (auto simp: normalizeObjects_def js_or_def mapItems_char)
  qed
  then show ?thesis
    by (cases "ToString numStr (js_or (state d) (JStr []))")
       (simp_all add: evaluateFocus_def Let_def ToString_def split: if_splits)
qed

lemma evaluateFocus_throws:
  assumes "\<not> (objectsWellTyped (objects d) \<and> sampleConverts d)"
  shows "evaluateFocus numStr eit cfg (Some d) = Inl TypeError"
proof (cases "stringThrows (state d)")
  case True
  then show ?thesis by (rule evaluateFocus_state_throws)
next
  case False
  with assms have "\<not> objectsWellTyped (objects d) \<or> (\<exists>xs. objects d = JArr xs \<and> list_ex stringThrows xs)"
    by (cases "objects d") (auto simp: sampleConverts_def)
  then show ?thesis by (rule evaluateFocus_objects_throw)
qed

lemma evaluateFocus_distractor_first:
  assumes "objects d = JArr xs" and "\<not> list_ex stringThrows xs" and "item \<in> set xs"
    and "toLowerCase (stringText numStr item) \<in> set distractedObjects"
    and "state d = JStr s"
  shows "evaluateFocus numStr eit cfg (Some d) = Inr \<lparr>focused = False, reason = ''distractor''\<rparr>"
proof -
  from assms have "normalizeObjects numStr (objects d) = Inr (map (\<lambda>x. toLowerCase (stringText numStr x)) xs)"
    by (simp add: normalizeObjects_def js_or_def mapItems_char)
  moreover have "list_ex (\<lambda>i. i \<in> set distractedObjects) (map (\<lambda>x. toLowerCase (stringText numStr x)) xs)"
    using assms unfolding list_ex_iff by auto
  moreover have "\<exists>t. ToString numStr (js_or (state d) (JStr [])) = Inr t"
    using assms(5) by (simp add: ToString_def)
  ultimately show ?thesis
    by (auto simp: evaluateFocus_def Let_def)
qed

text \<open>
  C1. On every sample whose \<open>objects\<close> field is absent or an array, \<open>evaluateFocus\<close> returns
  the verdict of the first rule, in the order 1 to 7 of the specification, whose condition
  holds, and the off-center verdict of rule 8 when none does; this for every state and
  objects that \<^verbatim>\<open>String\<close> converts, as all strings are, and it raises a TypeError for the
  others. In particular a sample with a distractor object and the state "at screen" is
  not focused, with reason "distractor": rule 1 is read before rule 6.
\<close>

theorem evaluateFocus_rule_order:
  assumes "objectsWellTyped (objects d)"
  shows "evaluateFocus numStr eit cfg (Some d)
           = (if sampleConverts d then Inr (classify_spec numStr (truthy eit) cfg d) else Inl TypeError)
       \<and> (\<forall>xs item s. objects d = JArr xs \<and> \<not> list_ex stringThrows xs \<and> item \<in> set xs
             \<and> toLowerCase (stringText numStr item) \<in> set distractedObjects
             \<and> state d = JStr s \<and> toLowerCase s = ''at screen''
           \<longrightarrow> evaluateFocus numStr eit cfg (Some d) = Inr \<lparr>focused = False, reason = ''distractor''\<rparr>)"
proof -
  have "evaluateFocus numStr eit cfg (Some d)
           = (if sampleConverts d then Inr (classify_spec numStr (truthy eit) cfg d) else Inl TypeError)"
    using evaluateFocus_refines[OF assms, of numStr eit cfg] evaluateFocus_throws[of d numStr eit cfg]
    by simp
  with evaluateFocus_distractor_first show ?thesis by blast
qed

theorem evaluateFocus_rule_order_witness:
  "objectsWellTyped (objects sampleC1) \<and> sampleConverts sampleC1
   \<and> evaluateFocus (\<lambda>n. []) (JBool True) initialVisionConfig (Some sampleC1)
       = Inr \<lparr>focused = False, reason = ''distractor''\<rparr>
   \<and> classify_spec (\<lambda>n. []) True initialVisionConfig (sampleC1\<lparr>objects := JArr []\<rparr>)
       = \<lparr>focused = True, reason = ''state''\<rparr>"
proof -
  have h: "objectsWellTyped (objects sampleC1)" by code_simp
  have s: "sampleConverts sampleC1" by code_simp
  have c: "classify_spec (\<lambda>n. []) (truthy (JBool True)) initialVisionConfig sampleC1
             = \<lparr>focused = False, reason = ''distractor''\<rparr>" by code_simp
  have e: "classify_spec (\<lambda>n. []) True initialVisionConfig (sampleC1\<lparr>objects := JArr []\<rparr>)
       = \<lparr>focused = True, reason = ''state''\<rparr>" by code_simp
  from evaluateFocus_rule_order[OF h, of "\<lambda>n. []" "JBool True" initialVisionConfig] c e h s
  show ?thesis by simp
qed











section \<open>Properties of the smoother\<close>









text \<open>The window and the level are cells that no effect writes.\<close>

lemma clearAlertTimeout_window [simp]:
  "focusResults (clearAlertTimeout st) = focusResults st"
  "focusLevel (clearAlertTimeout st) = focusLevel st"
  "currentState (clearAlertTimeout st) = currentState st"
  by (simp_all add: clearAlertTimeout_def split: option.splits)

lemma alertEffectCleanup_window [simp]:
  "focusResults (alertEffectCleanup st) = focusResults st"
  "focusLevel (alertEffectCleanup st) = focusLevel st"
  "currentState (alertEffectCleanup st) = currentState st"
  by (simp_all add: alertEffectCleanup_def)

lemma alertEffect_window [simp]:
  "focusResults (alertEffect now st) = focusResults st"
  "focusLevel (alertEffect now st) = focusLevel st"
  "currentState (alertEffect now st) = currentState st"
  by (simp_all add: alertEffect_def Let_def)

lemma timelineEffect_window [simp]:
  "focusResults (timelineEffect now st) = focusResults st"
  "focusLevel (timelineEffect now st) = focusLevel st"
  "currentState (timelineEffect now st) = currentState st"
  by (simp_all add: timelineEffect_def Let_def)

lemma socketEffect_window [simp]:
  "focusResults (socketEffect st) = focusResults st"
  "focusLevel (socketEffect st) = focusLevel st"
  "currentState (socketEffect st) = currentState st"
  by (simp_all add: socketEffect_def)

lemma commit_window [simp]:
  "focusResults (commit now st) = focusResults st"
  "focusLevel (commit now st) = focusLevel st"
  "currentState (commit now st) = currentState st"
  by (simp_all add: commit_def socketPart_def alertPart_def timelinePart_def)

text \<open>
  The handler of a message writes some of its own cells and then pushes one verdict, or
  none.
\<close>

lemma messageKeeps_refl [simp]: "messageKeeps st st"
  by (simp add: messageKeeps_def)

lemma storePayload_keeps [simp]: "messageKeeps st (storePayload eit incoming payload st)"
  by (simp add: messageKeeps_def storePayload_def Let_def split: option.splits)

lemma messageKeeps_upd [simp]:
  "messageKeeps st (s\<lparr>recentStatesRef := x\<rparr>) = messageKeeps st s"
  "messageKeeps st (s\<lparr>distractorReason := y\<rparr>) = messageKeeps st s"
  by (simp_all add: messageKeeps_def)

lemma pushVerdict_cases:
  assumes "P s" and "\<And>b. P (pushFocusResult b s)"
  shows "P (pushVerdict numStr h payload s)"
  using assms by (simp add: pushVerdict_def split: sum.splits)

lemma onmessage_cases:
  assumes keep: "\<And>s. messageKeeps st s \<Longrightarrow> P s"
    and push: "\<And>s b. messageKeeps st s \<Longrightarrow> P (pushFocusResult b s)"
  shows "P (onmessage numStr h payload st)"
proof -
  define pstate where "pstate = (case payload of None \<Rightarrow> JUndefined | Some p \<Rightarrow> state (sample p))"
  define eit where "eit = h_effectiveIncludeTalking h"
  define conv where "conv = (if truthy pstate then ToString numStr pstate else Inr [])"
  have om: "onmessage numStr h payload st =
     (case conv of
        Inl e \<Rightarrow> st
      | Inr incoming \<Rightarrow>
          if truthy pstate
          then (case computeMostCommonDistractor numStr
                       (sliceLast 60 (recentStatesRef (storePayload eit incoming payload st) @ [pstate])) eit of
                  Inl e \<Rightarrow> (storePayload eit incoming payload st)
                             \<lparr>recentStatesRef :=
                                sliceLast 60 (recentStatesRef (storePayload eit incoming payload st) @ [pstate])\<rparr>
                | Inr r \<Rightarrow> pushVerdict numStr h payload
                            ((storePayload eit incoming payload st)
                               \<lparr>recentStatesRef :=
                                  sliceLast 60 (recentStatesRef (storePayload eit incoming payload st) @ [pstate]),
                                distractorReason := r\<rparr>))
          else pushVerdict numStr h payload (storePayload eit incoming payload st))"
    unfolding onmessage_def Let_def conv_def pstate_def eit_def by (rule refl)
  show ?thesis
  proof (cases conv)
    case (Inl e)
    then have "onmessage numStr h payload st = st"
      by (simp add: om)
    then show ?thesis by (simp add: keep)
  next
    case (Inr incoming)
    define st2 where "st2 = storePayload eit incoming payload st"
    have k2: "messageKeeps st st2" by (simp add: st2_def)
    show ?thesis
    proof (cases "truthy pstate")
      case False
      with Inr have "onmessage numStr h payload st = pushVerdict numStr h payload st2"
        by (simp add: om st2_def)
      then show ?thesis
        by (simp add: pushVerdict_cases keep[OF k2] push[OF k2])
    next
      case True
      define st3 where "st3 = st2\<lparr>recentStatesRef := sliceLast 60 (recentStatesRef st2 @ [pstate])\<rparr>"
      have k3: "messageKeeps st st3" by (simp add: st3_def k2)
      show ?thesis
      proof (cases "computeMostCommonDistractor numStr (sliceLast 60 (recentStatesRef st2 @ [pstate])) eit")
        case (Inl e)
        with True Inr have "onmessage numStr h payload st = st3"
          by (simp add: om st2_def st3_def)
        then show ?thesis by (simp add: keep[OF k3])
      next
        case r: (Inr r)
        have k4: "messageKeeps st (st3\<lparr>distractorReason := r\<rparr>)" by (simp add: k3)
        from True Inr r have "onmessage numStr h payload st
            = pushVerdict numStr h payload (st3\<lparr>distractorReason := r\<rparr>)"
          by (simp add: om st2_def st3_def)
        then show ?thesis
          by (simp add: pushVerdict_cases keep[OF k4] push[OF k4])
      qed
    qed
  qed
qed









section \<open>Properties of session start and end\<close>

text \<open>
  C8. When the duration input is empty after trimming, or does not read as a finite
  number, or reads as a number that is not strictly positive, \<open>startLesson\<close> returns the
  state it was given: remaining time, summary, timeline, focus window, focus level,
  session start, distraction accumulators and the started flag are all unchanged.
\<close>

theorem startLesson_rejects_invalid:
  assumes "trim (lessonMinutes st) = [] \<or> \<not> isFinite (toNumber (lessonMinutes st))
           \<or> js_le (toNumber (lessonMinutes st)) (Fin 0)"
  shows "startLesson toNumber now st = st"
  using assms by (auto simp: startLesson_def Let_def)

theorem startLesson_rejects_invalid_witness:
  "js_le (numberOfDecimal (lessonMinutes (initialApp\<lparr>lessonMinutes := ''-5''\<rparr>))) (Fin 0)
   \<and> startLesson numberOfDecimal 1000 (initialApp\<lparr>lessonMinutes := ''-5''\<rparr>) = initialApp\<lparr>lessonMinutes := ''-5''\<rparr>
   \<and> lessonStarted (startLesson numberOfDecimal 1000 initialApp)"
proof -
  have h: "js_le (numberOfDecimal (lessonMinutes (initialApp\<lparr>lessonMinutes := ''-5''\<rparr>))) (Fin 0)"
    by (simp add: numberOfDecimal_def)
  have s: "lessonStarted (startLesson numberOfDecimal 1000 initialApp)"
    by code_simp
  from startLesson_rejects_invalid[of "initialApp\<lparr>lessonMinutes := ''-5''\<rparr>" numberOfDecimal 1000] h s
  show ?thesis by simp
qed

lemma max_sub_add: "max (t - d) 0 + d = max t (d::int)"
  by arith

text \<open>
  C3, as the code has it. When a session was started, \<open>endLesson\<close> produces a summary with
  \<open>totalSeconds = max 1 (round ((end - start) / 1000))\<close>, which is at least 1, and
  \<open>focusedSeconds = max (totalSeconds - distractedSeconds) 0\<close>. So the focused and the
  distracted seconds add up to \<open>totalSeconds\<close> when \<open>distractedSeconds \<le> totalSeconds\<close>, and
  to \<open>distractedSeconds\<close> otherwise.
\<close>

theorem endLesson_summary:
  assumes "truthyRef (sessionStartRef st)"
  shows "\<exists>s. sessionSummary (endLesson now st) = Some s
     \<and> totalSeconds s = max 1 (roundSeconds (now - refValue (sessionStartRef st)))
     \<and> totalSeconds s \<ge> 1
     \<and> focusedSeconds s = max (totalSeconds s - distractedSeconds s) 0
     \<and> focusedSeconds s + distractedSeconds s = max (totalSeconds s) (distractedSeconds s)
     \<and> (distractedSeconds s \<le> totalSeconds s \<longrightarrow> focusedSeconds s + distractedSeconds s = totalSeconds s)"
  using assms by (simp add: endLesson_def Let_def max_sub_add)

theorem endLesson_summary_witness:
  "truthyRef (sessionStartRef (run (\<lambda>n. []) numberOfDecimal sessionC3 (mount 500)))
   \<and> (\<exists>s. sessionSummary (endLesson 5200 (run (\<lambda>n. []) numberOfDecimal sessionC3 (mount 500))) = Some s
          \<and> totalSeconds s \<ge> 1
          \<and> focusedSeconds s + distractedSeconds s = max (totalSeconds s) (distractedSeconds s))"
proof -
  have h: "truthyRef (sessionStartRef (run (\<lambda>n. []) numberOfDecimal sessionC3 (mount 500)))"
    by code_simp
  from endLesson_summary[OF h, of 5200] h show ?thesis by blast
qed

text \<open>
  C3 as stated fails. The two distractions of \<open>sessionC3\<close> last 1500 ms each and count for
  2 seconds each; the session lasts 3300 ms and counts for 3 seconds. The summary has 0
  focused and 4 distracted seconds, which do not add up to the 3 seconds of the session.
\<close>

theorem session_sum_counterexample:
  "sessionSummary (run (\<lambda>n. []) numberOfDecimal (sessionC3 @ [(5200, EndLesson)]) (mount 500))
     = Some \<lparr>totalSeconds = 3, distractedSeconds = 4, focusedSeconds = 0, alerts = 2\<rparr>
   \<and> focusedSeconds \<lparr>totalSeconds = 3, distractedSeconds = 4, focusedSeconds = 0, alerts = 2\<rparr>
       + distractedSeconds \<lparr>totalSeconds = 3, distractedSeconds = 4, focusedSeconds = 0, alerts = 2\<rparr>
     \<noteq> totalSeconds \<lparr>totalSeconds = 3, distractedSeconds = 4, focusedSeconds = 0, alerts = 2\<rparr>"
  by code_simp

section \<open>The invariant of the focus window\<close>

lemma sum_list_bits:
  "list_all (\<lambda>x. x = 0 \<or> x = 1) xs \<Longrightarrow> 0 \<le> sum_list xs \<and> sum_list xs \<le> int (length xs)"
  by (induction xs) auto

lemma list_all_sliceLast:
  "list_all P xs \<Longrightarrow> list_all P (sliceLast n xs)"
  unfolding sliceLast_def list_all_iff by (meson in_set_dropD)

lemma mean_bits:
  assumes "list_all (\<lambda>x. x = 0 \<or> x = 1) xs"
  shows "0 \<le> (of_int (sum_list xs) / of_nat (length xs) :: rat)
       \<and> (of_int (sum_list xs) / of_nat (length xs) :: rat) \<le> 1"
proof -
  from sum_list_bits[OF assms] have a: "0 \<le> sum_list xs" and b: "sum_list xs \<le> int (length xs)"
    by auto
  have "(of_int (sum_list xs) :: rat) \<le> of_int (int (length xs))"
    using b by (simp only: of_int_le_iff)
  then have c: "(of_int (sum_list xs) :: rat) \<le> of_nat (length xs)" by simp
  have d: "(0::rat) \<le> of_int (sum_list xs)" using a by simp
  show ?thesis
  proof (cases "length xs = 0")
    case True
    then show ?thesis by simp
  next
    case False
    then have "(0::rat) < of_nat (length xs)" by simp
    with c d show ?thesis by (simp add: divide_le_eq)
  qed
qed

lemma pushFocusResult_window:
  assumes "windowInvariant st"
  shows "windowInvariant (pushFocusResult v st)"
proof -
  let ?w = "sliceLast 60 (focusResults st @ [if v then 1 else 0])"
  from assms have "list_all (\<lambda>x. x = 0 \<or> x = 1) (focusResults st @ [if v then 1 else 0])"
    by (simp add: windowInvariant_def)
  then have w: "list_all (\<lambda>x. x = 0 \<or> x = 1) ?w" by (rule list_all_sliceLast)
  from mean_bits[OF w] w show ?thesis
    by (simp add: windowInvariant_def pushFocusResult_def Let_def)
qed

lemma startLesson_window:
  "windowInvariant st \<Longrightarrow> windowInvariant (startLesson toNumber now st)"
  by (simp add: windowInvariant_def startLesson_def Let_def)

lemma endLesson_window:
  "windowInvariant st \<Longrightarrow> windowInvariant (endLesson now st)"
  by (simp add: windowInvariant_def endLesson_def Let_def)

lemma alertCallback_window:
  "windowInvariant st \<Longrightarrow> windowInvariant (alertCallback t st)"
  by (simp add: windowInvariant_def alertCallback_def Let_def split: option.splits)

lemma timerFire_window:
  "windowInvariant st \<Longrightarrow> windowInvariant (timerFire i now st)"
  by (auto simp: timerFire_def split: option.splits intro!: alertCallback_window)
     (simp add: windowInvariant_def)

lemma windowInvariant_cells:
  "messageKeeps st s \<Longrightarrow> windowInvariant s = windowInvariant st"
  by (simp add: windowInvariant_def messageKeeps_def)

lemma onmessage_window:
  assumes "windowInvariant st"
  shows "windowInvariant (onmessage numStr h payload st)"
  by (rule onmessage_cases) (use assms in \<open>simp_all add: pushFocusResult_window windowInvariant_cells\<close>)

lemma handle_window:
  "windowInvariant st \<Longrightarrow> windowInvariant (handle numStr toNumber now ev st)"
  by (cases ev)
     (auto simp: handle_def startLesson_window endLesson_window timerFire_window onmessage_window
           split: option.splits, simp_all add: windowInvariant_def)

lemma commit_windowInvariant: "windowInvariant (commit now st) = windowInvariant st"
  by (simp add: windowInvariant_def)

lemma step_window:
  "windowInvariant st \<Longrightarrow> windowInvariant (step numStr toNumber e st)"
  by (simp add: step_def commit_windowInvariant handle_window)

lemma run_window:
  "windowInvariant st \<Longrightarrow> windowInvariant (run numStr toNumber tr st)"
  by (induction tr arbitrary: st) (simp_all add: step_window)

text \<open>
  C10. In every state that the component reaches from its first render, by any sequence of
  events at any clock readings, every element of the focus window is 0 or 1 and the focus
  level lies between 0 and 1.
\<close>

theorem focus_window_invariant:
  "windowInvariant (run numStr toNumber tr (mount now))"
proof -
  have "windowInvariant initialApp" by (simp add: windowInvariant_def initialApp_def)
  then have "windowInvariant (mount now)" by (simp add: mount_def commit_windowInvariant)
  then show ?thesis by (rule run_window)
qed

theorem focus_window_invariant_witness:
  "windowInvariant (run (\<lambda>n. []) numberOfDecimal sessionC3 (mount 500))
   \<and> focusResults (run (\<lambda>n. []) numberOfDecimal sessionC3 (mount 500)) = [0, 1, 1, 1, 0, 1, 1]
   \<and> focusLevel (run (\<lambda>n. []) numberOfDecimal sessionC3 (mount 500)) = 5 / 7"
proof -
  have "focusResults (run (\<lambda>n. []) numberOfDecimal sessionC3 (mount 500)) = [0, 1, 1, 1, 0, 1, 1]
   \<and> focusLevel (run (\<lambda>n. []) numberOfDecimal sessionC3 (mount 500)) = 5 / 7"
    by code_simp
  with focus_window_invariant[of "\<lambda>n. []" numberOfDecimal sessionC3 500] show ?thesis by simp
qed

section \<open>Properties of the timeline\<close>

lemma sessionEq_refl [simp]: "sessionEq a a"
  by (simp add: sessionEq_def)

lemma sessionEq_trans: "sessionEq a b \<Longrightarrow> sessionEq b c \<Longrightarrow> sessionEq a c"
  by (simp add: sessionEq_def)

lemma sessionEq_deps: "sessionEq a b \<Longrightarrow> timelineDepsOf a = timelineDepsOf b"
  by (simp add: sessionEq_def timelineDepsOf_def focusWarningActive_def)

lemma sessionEq_clearAlertTimeout [simp]: "sessionEq (clearAlertTimeout st) st"
  by (simp add: sessionEq_def clearAlertTimeout_def split: option.splits)

lemma sessionEq_alertEffectCleanup [simp]: "sessionEq (alertEffectCleanup st) st"
  using sessionEq_clearAlertTimeout[of st]
  by (simp add: sessionEq_def alertEffectCleanup_def)

lemma sessionEq_alertEffect [simp]: "sessionEq (alertEffect now st) st"
  using sessionEq_clearAlertTimeout[of st]
  by (simp add: sessionEq_def alertEffect_def Let_def)

lemma sessionEq_socketEffect [simp]: "sessionEq (socketEffect st) st"
  by (simp add: sessionEq_def socketEffect_def)

lemma timelineDepsPrev_clearAlertTimeout [simp]:
  "timelineDepsPrev (clearAlertTimeout st) = timelineDepsPrev st"
  by (simp add: clearAlertTimeout_def split: option.splits)

lemma timelineDepsPrev_alertEffectCleanup [simp]:
  "timelineDepsPrev (alertEffectCleanup st) = timelineDepsPrev st"
  by (simp add: alertEffectCleanup_def)

lemma timelineDepsPrev_alertEffect [simp]:
  "timelineDepsPrev (alertEffect now st) = timelineDepsPrev st"
  by (simp add: alertEffect_def Let_def)

lemma timelineDepsPrev_socketEffect [simp]:
  "timelineDepsPrev (socketEffect st) = timelineDepsPrev st"
  by (simp add: socketEffect_def)

lemma timelineEffect_cong:
  "sessionEq a b \<Longrightarrow> sessionEq (timelineEffect now a) (timelineEffect now b)"
  by (simp add: sessionEq_def timelineEffect_def Let_def focusWarningActive_def)

lemma timelineEffect_deps [simp]:
  "timelineDepsOf (timelineEffect now st) = timelineDepsOf st"
  by (simp add: timelineDepsOf_def timelineEffect_def Let_def focusWarningActive_def)

lemma commit_beforeTimeline:
  "commit now st =
     (if timelineDepsPrev (beforeTimeline now st) = Some (timelineDepsOf (beforeTimeline now st))
      then beforeTimeline now st
      else (timelineEffect now (beforeTimeline now st))
             \<lparr>timelineDepsPrev := Some (timelineDepsOf (beforeTimeline now st))\<rparr>)"
  by (simp add: commit_def beforeTimeline_def timelinePart_def)

lemma sessionEq_upd [simp]:
  "sessionEq (st\<lparr>socketDepsPrev := x\<rparr>) b = sessionEq st b"
  "sessionEq (st\<lparr>alertDepsPrev := y\<rparr>) b = sessionEq st b"
  "sessionEq (st\<lparr>timelineDepsPrev := z\<rparr>) b = sessionEq st b"
  by (simp_all add: sessionEq_def)

lemma beforeTimeline_sessionEq [simp]: "sessionEq (beforeTimeline now st) st"
proof -
  have a: "sessionEq (alertEffect now (alertEffectCleanup s)) s" for s
    by (rule sessionEq_trans[OF sessionEq_alertEffect sessionEq_alertEffectCleanup])
  have b: "sessionEq (alertPart now s) s" for s
    by (simp add: alertPart_def a)
  have c: "sessionEq (socketPart st) st"
    by (simp add: socketPart_def)
  show ?thesis
    unfolding beforeTimeline_def by (rule sessionEq_trans[OF b c])
qed

lemma beforeTimeline_prev [simp]:
  "timelineDepsPrev (beforeTimeline now st) = timelineDepsPrev st"
  by (simp add: beforeTimeline_def alertPart_def socketPart_def)

lemma beforeTimeline_deps [simp]:
  "timelineDepsOf (beforeTimeline now st) = timelineDepsOf st"
  by (rule sessionEq_deps) simp

lemma timelineDepsOf_upd [simp]:
  "timelineDepsOf (st\<lparr>timelineDepsPrev := z\<rparr>) = timelineDepsOf st"
  by (simp add: timelineDepsOf_def focusWarningActive_def)

lemma commit_session:
  "sessionEq (commit now st)
     (if timelineDepsPrev st = Some (timelineDepsOf st) then st else timelineEffect now st)
   \<and> timelineDepsPrev (commit now st) = Some (timelineDepsOf st)
   \<and> timelineDepsOf (commit now st) = timelineDepsOf st"
proof (cases "timelineDepsPrev st = Some (timelineDepsOf st)")
  case True
  then show ?thesis by (simp add: commit_beforeTimeline)
next
  case False
  have "sessionEq (timelineEffect now (beforeTimeline now st)) (timelineEffect now st)"
    by (rule timelineEffect_cong) simp
  with False show ?thesis by (simp add: commit_beforeTimeline)
qed

lemma timelineEffect_session:
  assumes "lessonStarted st" "truthyRef (sessionStartRef st)" "now \<noteq> 0"
  shows "sessionTimeline (timelineEffect now st)
           = sessionTimeline st
             @ (if truthyRef (distractedStartRef st) \<noteq> focusWarningActive st then crossingEntry now st else [])"
    and "truthyRef (distractedStartRef (timelineEffect now st)) = focusWarningActive st"
    and "lessonStarted (timelineEffect now st)"
    and "sessionStartRef (timelineEffect now st) = sessionStartRef st"
  using assms
  by (auto simp: timelineEffect_def Let_def crossingEntry_def truthyRef_def focusWarningActive_def)

text \<open>The cells that the handler of a message never writes.\<close>

lemma onmessage_fields [simp]:
  "lessonMinutes (onmessage numStr h payload st) = lessonMinutes st"
  "lessonStarted (onmessage numStr h payload st) = lessonStarted st"
  "trackingEnabled (onmessage numStr h payload st) = trackingEnabled st"
  "remainingSeconds (onmessage numStr h payload st) = remainingSeconds st"
  "sessionSummary (onmessage numStr h payload st) = sessionSummary st"
  "sessionTimeline (onmessage numStr h payload st) = sessionTimeline st"
  "alertTimeoutRef (onmessage numStr h payload st) = alertTimeoutRef st"
  "alertQueuedRef (onmessage numStr h payload st) = alertQueuedRef st"
  "sessionStartRef (onmessage numStr h payload st) = sessionStartRef st"
  "distractedStartRef (onmessage numStr h payload st) = distractedStartRef st"
  "distractedTotalRef (onmessage numStr h payload st) = distractedTotalRef st"
  "distractedCountRef (onmessage numStr h payload st) = distractedCountRef st"
  "visionConfig (onmessage numStr h payload st) = visionConfig st"
  "characterChoice (onmessage numStr h payload st) = characterChoice st"
  "alertQueue (onmessage numStr h payload st) = alertQueue st"
  "timers (onmessage numStr h payload st) = timers st"
  "nextTimerId (onmessage numStr h payload st) = nextTimerId st"
  "alertCleanup (onmessage numStr h payload st) = alertCleanup st"
  "socketHandler (onmessage numStr h payload st) = socketHandler st"
  "socketDepsPrev (onmessage numStr h payload st) = socketDepsPrev st"
  "alertDepsPrev (onmessage numStr h payload st) = alertDepsPrev st"
  "timelineDepsPrev (onmessage numStr h payload st) = timelineDepsPrev st"
  by (rule onmessage_cases, simp_all add: messageKeeps_def pushFocusResult_def Let_def)+

lemma handle_session:
  assumes "sessionEvent (t, e)"
  shows "lessonStarted (handle numStr toNumber t e st) = lessonStarted st"
    and "sessionStartRef (handle numStr toNumber t e st) = sessionStartRef st"
    and "distractedStartRef (handle numStr toNumber t e st) = distractedStartRef st"
    and "sessionTimeline (handle numStr toNumber t e st) = sessionTimeline st"
    and "timelineDepsPrev (handle numStr toNumber t e st) = timelineDepsPrev st"
  using assms
  by (cases e; simp add: handle_def timerFire_def alertCallback_def Let_def split: option.splits)+

lemma sessionEq_fwa: "sessionEq a b \<Longrightarrow> focusWarningActive a = focusWarningActive b"
  by (simp add: sessionEq_def focusWarningActive_def)

lemma sessionEq_crossingEntry: "sessionEq a b \<Longrightarrow> crossingEntry now a = crossingEntry now b"
  by (simp add: sessionEq_def crossingEntry_def focusWarningActive_def)

lemma timelineDeps_fwa: "timelineDepsOf a = timelineDepsOf b \<Longrightarrow> focusWarningActive a = focusWarningActive b"
  by (simp add: timelineDepsOf_def)

lemma step_session:
  assumes inv: "sessionInv st" and ev: "sessionEvent (t, e)"
  shows "sessionInv (step numStr toNumber (t, e) st)"
    and "sessionTimeline (step numStr toNumber (t, e) st)
           = sessionTimeline st
             @ (if focusWarningActive (step numStr toNumber (t, e) st) \<noteq> focusWarningActive st
                then crossingEntry t (step numStr toNumber (t, e) st) else [])"
proof -
  define X where "X = handle numStr toNumber t e st"
  define Y where "Y = (if timelineDepsPrev X = Some (timelineDepsOf X) then X else timelineEffect t X)"
  have st': "step numStr toNumber (t, e) st = commit t X"
    by (simp add: step_def X_def)
  from ev have t: "t \<noteq> 0" by (cases e) simp_all
  note h = handle_session[OF ev, of numStr toNumber st, folded X_def]
  from inv h have X: "lessonStarted X" "truthyRef (sessionStartRef X)"
    "timelineDepsPrev X = Some (timelineDepsOf st)"
    "truthyRef (distractedStartRef X) = focusWarningActive st"
    by (simp_all add: sessionInv_def)
  from commit_session[of t X] have c: "sessionEq (commit t X) Y"
    "timelineDepsPrev (commit t X) = Some (timelineDepsOf X)"
    "timelineDepsOf (commit t X) = timelineDepsOf X"
    by (simp_all add: Y_def)
  have fw: "focusWarningActive (commit t X) = focusWarningActive X"
    using c(3) by (rule timelineDeps_fwa)
  have Y: "lessonStarted Y \<and> sessionStartRef Y = sessionStartRef X
      \<and> truthyRef (distractedStartRef Y) = focusWarningActive X
      \<and> sessionTimeline Y = sessionTimeline X
             @ (if focusWarningActive X \<noteq> focusWarningActive st then crossingEntry t X else [])"
  proof (cases "timelineDepsPrev X = Some (timelineDepsOf X)")
    case True
    with X(3) have "timelineDepsOf X = timelineDepsOf st" by simp
    then have "focusWarningActive X = focusWarningActive st"
      by (rule timelineDeps_fwa)
    with True X show ?thesis by (simp add: Y_def)
  next
    case False
    with timelineEffect_session[OF X(1) X(2) t] X(4) show ?thesis
      by (auto simp: Y_def)
  qed
  from c(1) have eqs: "lessonStarted (commit t X) = lessonStarted Y"
    "sessionStartRef (commit t X) = sessionStartRef Y"
    "distractedStartRef (commit t X) = distractedStartRef Y"
    "sessionTimeline (commit t X) = sessionTimeline Y"
    by (simp_all add: sessionEq_def)
  have ce: "crossingEntry t (commit t X) = crossingEntry t X"
    using c(3) eqs(2) Y c(1)
    by (simp add: crossingEntry_def timelineDepsOf_def)
  show "sessionInv (step numStr toNumber (t, e) st)"
    unfolding st' sessionInv_def using eqs Y X c fw by simp
  show "sessionTimeline (step numStr toNumber (t, e) st)
           = sessionTimeline st
             @ (if focusWarningActive (step numStr toNumber (t, e) st) \<noteq> focusWarningActive st
                then crossingEntry t (step numStr toNumber (t, e) st) else [])"
    unfolding st' using eqs Y fw ce h(4) by simp
qed

lemma length_crossingEntry [simp]: "length (crossingEntry now st) = 1"
  by (simp add: crossingEntry_def)

lemma run_session:
  assumes "sessionInv st" and "list_all sessionEvent tr"
  shows "sessionInv (run numStr toNumber tr st)
     \<and> length (sessionTimeline (run numStr toNumber tr st)) + (if focusWarningActive st then 1 else 0)
         = length (sessionTimeline st)
           + 2 * completedEpisodes (focusWarningActive st) (fwaTrace numStr toNumber tr st)
           + (if focusWarningActive (run numStr toNumber tr st) then 1 else 0)"
  using assms
proof (induction tr arbitrary: st)
  case Nil
  then show ?case by (simp add: fwaTrace_def)
next
  case (Cons a tr)
  obtain t e where a: "a = (t, e)" by (cases a)
  define s1 where "s1 = step numStr toNumber (t, e) st"
  from Cons.prems a have ev: "sessionEvent (t, e)" and rest: "list_all sessionEvent tr" by simp_all
  note s = step_session[OF Cons.prems(1) ev, of numStr toNumber, folded s1_def]
  have len: "length (sessionTimeline s1)
      = length (sessionTimeline st) + (if focusWarningActive s1 \<noteq> focusWarningActive st then 1 else 0)"
    by (subst s(2)) simp
  have r: "run numStr toNumber (a # tr) st = run numStr toNumber tr s1"
    by (simp add: a s1_def)
  have f: "fwaTrace numStr toNumber (a # tr) st = focusWarningActive s1 # fwaTrace numStr toNumber tr s1"
    by (simp add: a s1_def fwaTrace_def)
  from Cons.IH[OF s(1) rest] have ih: "sessionInv (run numStr toNumber tr s1)"
    "length (sessionTimeline (run numStr toNumber tr s1)) + (if focusWarningActive s1 then 1 else 0)
         = length (sessionTimeline s1)
           + 2 * completedEpisodes (focusWarningActive s1) (fwaTrace numStr toNumber tr s1)
           + (if focusWarningActive (run numStr toNumber tr s1) then 1 else 0)"
    by simp_all
  define n where "n = length (sessionTimeline (run numStr toNumber tr s1))"
  define c where "c = completedEpisodes (focusWarningActive s1) (fwaTrace numStr toNumber tr s1)"
  define k where "k = length (sessionTimeline st)"
  define z where "z = (if focusWarningActive (run numStr toNumber tr s1) then 1 else 0 :: nat)"
  from ih(2) len have "n + (if focusWarningActive st then 1 else 0)
      = k + 2 * ((if focusWarningActive st \<and> \<not> focusWarningActive s1 then 1 else 0) + c) + z"
    unfolding n_def[symmetric] c_def[symmetric] k_def[symmetric] z_def[symmetric]
    by (cases "focusWarningActive st"; cases "focusWarningActive s1") simp_all
  with ih(1) show ?case
    unfolding r f n_def c_def k_def z_def by simp
qed

lemma startLesson_session:
  assumes "startAccepted toNumber s" and "t \<noteq> 0"
  shows "sessionInv (step numStr toNumber (t, StartLesson) s)"
    and "sessionTimeline (step numStr toNumber (t, StartLesson) s) = []"
    and "\<not> focusWarningActive (step numStr toNumber (t, StartLesson) s)"
proof -
  define X where "X = handle numStr toNumber t StartLesson s"
  define Y where "Y = (if timelineDepsPrev X = Some (timelineDepsOf X) then X else timelineEffect t X)"
  have st': "step numStr toNumber (t, StartLesson) s = commit t X"
    by (simp add: step_def X_def)
  from assms have X: "lessonStarted X" "truthyRef (sessionStartRef X)" "\<not> truthyRef (distractedStartRef X)"
    "sessionTimeline X = []" "\<not> focusWarningActive X"
    by (simp_all add: X_def handle_def startLesson_def startAccepted_def Let_def truthyRef_def
          focusWarningActive_def)
  from commit_session[of t X] have c: "sessionEq (commit t X) Y"
    "timelineDepsPrev (commit t X) = Some (timelineDepsOf X)"
    "timelineDepsOf (commit t X) = timelineDepsOf X"
    by (simp_all add: Y_def)
  have fw: "focusWarningActive (commit t X) = focusWarningActive X"
    using c(3) by (rule timelineDeps_fwa)
  from timelineEffect_session[OF X(1) X(2) assms(2)] X
  have Y: "lessonStarted Y \<and> sessionStartRef Y = sessionStartRef X
      \<and> \<not> truthyRef (distractedStartRef Y) \<and> sessionTimeline Y = []"
    by (simp add: Y_def)
  from c(1) have eqs: "lessonStarted (commit t X) = lessonStarted Y"
    "sessionStartRef (commit t X) = sessionStartRef Y"
    "distractedStartRef (commit t X) = distractedStartRef Y"
    "sessionTimeline (commit t X) = sessionTimeline Y"
    by (simp_all add: sessionEq_def)
  show "sessionInv (step numStr toNumber (t, StartLesson) s)"
    unfolding st' sessionInv_def using eqs Y X c fw by simp
  show "sessionTimeline (step numStr toNumber (t, StartLesson) s) = []"
    unfolding st' using eqs Y by simp
  show "\<not> focusWarningActive (step numStr toNumber (t, StartLesson) s)"
    unfolding st' using fw X by simp
qed

lemma endLesson_timeline:
  "sessionTimeline (step numStr toNumber (t, EndLesson) st) = sessionTimeline st"
proof -
  define X where "X = handle numStr toNumber t EndLesson st"
  have X: "\<not> lessonStarted X" "sessionTimeline X = sessionTimeline st"
    by (simp_all add: X_def handle_def endLesson_def Let_def)
  then have "timelineEffect t X = X" by (simp add: timelineEffect_def)
  with commit_session[of t X] have "sessionEq (commit t X) X"
    by (simp split: if_splits)
  with X show ?thesis by (simp add: step_def X_def[symmetric] sessionEq_def)
qed

lemma run_append:
  "run numStr toNumber (xs @ ys) st = run numStr toNumber ys (run numStr toNumber xs st)"
  by (induction xs arbitrary: st) simp_all

text \<open>
  C5. In a session (an accepted start at a non-zero clock reading, followed by any events
  other than a start or an end, at non-zero clock readings) the timeline has exactly twice
  as many entries as the smoothed state has gone from distracted back to focused, plus one
  when it is distracted at the end; ending the session appends nothing; and each event
  appends one entry when the smoothed state crosses between focused and distracted, and
  nothing when it does not.
\<close>

theorem timeline_entry_count:
  assumes "startAccepted toNumber s" and "t0 \<noteq> 0" and "list_all sessionEvent tr"
  shows "length (sessionTimeline (run numStr toNumber tr (step numStr toNumber (t0, StartLesson) s)))
           = 2 * completedEpisodes False (fwaTrace numStr toNumber tr (step numStr toNumber (t0, StartLesson) s))
             + (if focusWarningActive (run numStr toNumber tr (step numStr toNumber (t0, StartLesson) s))
                then 1 else 0)
       \<and> sessionTimeline (step numStr toNumber (t, EndLesson)
               (run numStr toNumber tr (step numStr toNumber (t0, StartLesson) s)))
           = sessionTimeline (run numStr toNumber tr (step numStr toNumber (t0, StartLesson) s))
       \<and> (\<forall>pre e post. tr = pre @ e # post \<longrightarrow>
             sessionTimeline (step numStr toNumber e (run numStr toNumber pre (step numStr toNumber (t0, StartLesson) s)))
             = sessionTimeline (run numStr toNumber pre (step numStr toNumber (t0, StartLesson) s))
               @ (if focusWarningActive (step numStr toNumber e
                        (run numStr toNumber pre (step numStr toNumber (t0, StartLesson) s)))
                     \<noteq> focusWarningActive (run numStr toNumber pre (step numStr toNumber (t0, StartLesson) s))
                  then crossingEntry (fst e) (step numStr toNumber e
                        (run numStr toNumber pre (step numStr toNumber (t0, StartLesson) s)))
                  else []))"
proof -
  define st1 where "st1 = step numStr toNumber (t0, StartLesson) s"
  note b = startLesson_session[OF assms(1) assms(2), of numStr, folded st1_def]
  from run_session[OF b(1) assms(3), of numStr toNumber] b(2) b(3)
  have count: "length (sessionTimeline (run numStr toNumber tr st1))
           = 2 * completedEpisodes False (fwaTrace numStr toNumber tr st1)
             + (if focusWarningActive (run numStr toNumber tr st1) then 1 else 0)"
    by simp
  have each: "sessionTimeline (step numStr toNumber e (run numStr toNumber pre st1))
             = sessionTimeline (run numStr toNumber pre st1)
               @ (if focusWarningActive (step numStr toNumber e (run numStr toNumber pre st1))
                     \<noteq> focusWarningActive (run numStr toNumber pre st1)
                  then crossingEntry (fst e) (step numStr toNumber e (run numStr toNumber pre st1))
                  else [])"
    if "tr = pre @ e # post" for pre e post
  proof -
    from that assms(3) have p: "list_all sessionEvent pre" and e: "sessionEvent e" by simp_all
    from run_session[OF b(1) p, of numStr toNumber] have i: "sessionInv (run numStr toNumber pre st1)"
      by simp
    obtain u ev where ue: "e = (u, ev)" by (cases e)
    from step_session(2)[OF i, of u ev numStr toNumber] e ue show ?thesis by simp
  qed
  from count each endLesson_timeline[of numStr toNumber t "run numStr toNumber tr st1"]
  show ?thesis unfolding st1_def by blast
qed

theorem timeline_entry_count_witness:
  "startAccepted numberOfDecimal (mount 500) \<and> (1900::int) \<noteq> 0 \<and> list_all sessionEvent (tl sessionC3)
   \<and> length (sessionTimeline (run (\<lambda>n. []) numberOfDecimal (tl sessionC3)
               (step (\<lambda>n. []) numberOfDecimal (1900, StartLesson) (mount 500)))) = 4
   \<and> completedEpisodes False (fwaTrace (\<lambda>n. []) numberOfDecimal (tl sessionC3)
               (step (\<lambda>n. []) numberOfDecimal (1900, StartLesson) (mount 500))) = 2
   \<and> \<not> focusWarningActive (run (\<lambda>n. []) numberOfDecimal (tl sessionC3)
               (step (\<lambda>n. []) numberOfDecimal (1900, StartLesson) (mount 500)))"
proof -
  have a: "startAccepted numberOfDecimal (mount 500)" by code_simp
  have b: "(1900::int) \<noteq> 0" by simp
  have c: "list_all sessionEvent (tl sessionC3)" by code_simp
  have d: "completedEpisodes False (fwaTrace (\<lambda>n. []) numberOfDecimal (tl sessionC3)
               (step (\<lambda>n. []) numberOfDecimal (1900, StartLesson) (mount 500))) = 2
   \<and> \<not> focusWarningActive (run (\<lambda>n. []) numberOfDecimal (tl sessionC3)
               (step (\<lambda>n. []) numberOfDecimal (1900, StartLesson) (mount 500)))"
    by code_simp
  from timeline_entry_count[OF a b c, of "\<lambda>n. []"] a b c d show ?thesis by simp
qed

section \<open>The talking switch and the most common distractor\<close>

lemma effectiveIncludeTalking_remote:
  "backendConfig st = Some v \<Longrightarrow> \<not> nullish v \<Longrightarrow> effectiveIncludeTalking st = v"
  by (simp add: effectiveIncludeTalking_def js_coalesce_def)

lemma effectiveIncludeTalking_local:
  "backendConfig st = None \<Longrightarrow> effectiveIncludeTalking st = JBool (includeTalking (visionConfig st))"
  by (simp add: effectiveIncludeTalking_def js_coalesce_def nullish_def)

lemma socketHandler_clearAlertTimeout [simp]:
  "socketHandler (clearAlertTimeout st) = socketHandler st"
  by (simp add: clearAlertTimeout_def split: option.splits)

lemma socketHandler_effects [simp]:
  "socketHandler (alertEffectCleanup st) = socketHandler st"
  "socketHandler (alertEffect now st) = socketHandler st"
  "socketHandler (timelineEffect now st) = socketHandler st"
  by (simp_all add: alertEffectCleanup_def alertEffect_def timelineEffect_def Let_def)

lemma socketHandler_commit:
  "socketDepsPrev st = Some (trackingEnabled st) \<Longrightarrow> socketHandler (commit now st) = socketHandler st"
  by (simp add: commit_def socketPart_def alertPart_def timelinePart_def)

lemma socketHandler_handle:
  "e \<noteq> ToggleTracking \<Longrightarrow>
     socketHandler (handle numStr toNumber t e st) = socketHandler st
   \<and> socketDepsPrev (handle numStr toNumber t e st) = socketDepsPrev st
   \<and> trackingEnabled (handle numStr toNumber t e st) = trackingEnabled st"
  by (cases e; simp add: handle_def timerFire_def alertCallback_def startLesson_def endLesson_def
        Let_def split: option.splits)

text \<open>No event but a tracking toggle replaces the handler of the socket.\<close>

lemma socketHandler_step:
  assumes "e \<noteq> ToggleTracking" and "socketDepsPrev st = Some (trackingEnabled st)"
  shows "socketHandler (step numStr toNumber (t, e) st) = socketHandler st"
  using socketHandler_handle[OF assms(1), of numStr toNumber t st] assms(2)
  by (simp add: step_def socketHandler_commit)

text \<open>
  C7 fails on the code. After the remote process has echoed \<^verbatim>\<open>include_talking: false\<close>,
  \<open>effectiveIncludeTalking\<close> of the component is false, but the handler of the socket still
  holds the value \<open>true\<close> of the render in which the socket was opened. The next sample,
  which reports talking with the gaze at the centre, is classified with the handler's
  value: not focused, reason "audio", and a 0 enters the window. With the echoed value
  it would be focused, reason "centered".
\<close>

theorem stale_include_talking:
  "effectiveIncludeTalking afterEcho = JBool False
   \<and> map_option h_effectiveIncludeTalking (socketHandler afterEcho) = Some (JBool True)
   \<and> evaluateFocus (\<lambda>n. []) (effectiveIncludeTalking afterEcho) (visionConfig afterEcho) (Some talkingSample)
       = Inr \<lparr>focused = True, reason = ''centered''\<rparr>
   \<and> evaluateFocus (\<lambda>n. []) (JBool True) (visionConfig afterEcho) (Some talkingSample)
       = Inr \<lparr>focused = False, reason = ''audio''\<rparr>
   \<and> focusResults (step (\<lambda>n. []) numberOfDecimal
         (1100, Message (Some \<lparr>sample = talkingSample, config = None\<rparr>)) afterEcho) = [1, 0]"
  by code_simp

text \<open>
  A label that \<^verbatim>\<open>String\<close> cannot convert makes the resolver raise; the other lemmas are
  about windows without such a label, as are the windows of labels that the handler has
  converted before.
\<close>

lemma normalizeState_converts:
  "\<not> stringThrows s \<Longrightarrow> normalizeState numStr s = Inr (stateKey numStr s)"
  by (simp add: normalizeState_def stateKey_def ToString_def)

lemma countState_throws:
  "stringThrows s \<Longrightarrow> countState numStr inclTalking acc s = Inl TypeError"
  by (simp add: countState_def normalizeState_def ToString_def)

lemma countState_skip:
  "\<not> stringThrows s \<Longrightarrow> \<not> counted numStr inclTalking s \<Longrightarrow>
   countState numStr inclTalking acc s = Inr acc"
  by (auto simp: counted_def countState_def normalizeState_converts)

lemma countState_counted:
  "\<not> stringThrows s \<Longrightarrow> counted numStr inclTalking s \<Longrightarrow>
   countState numStr inclTalking acc s
     = Inr (bumpCount (stateKey numStr s) (fst acc),
            setLabelOnce (stateKey numStr s) (stringText numStr s) (snd acc))"
  by (auto simp: counted_def countState_def normalizeState_converts ToString_def setLabelOnce_def
      split: option.splits)

lemma countStates_throws:
  "list_ex stringThrows states \<Longrightarrow> countStates numStr inclTalking acc states = Inl TypeError"
proof (induction states arbitrary: acc)
  case Nil
  then show ?case by simp
next
  case (Cons s states)
  show ?case
  proof (cases "stringThrows s")
    case True
    then show ?thesis by (simp add: countState_throws)
  next
    case False
    with Cons.prems have r: "list_ex stringThrows states" by simp
    show ?thesis
      by (cases "counted numStr inclTalking s")
         (simp_all add: countState_counted[OF False] countState_skip[OF False] Cons.IH[OF r])
  qed
qed

lemma countStates_filter:
  "\<not> list_ex stringThrows states \<Longrightarrow>
   countStates numStr inclTalking acc states
     = countStates numStr inclTalking acc (filter (counted numStr inclTalking) states)"
  by (induction states arbitrary: acc) (simp_all add: countState_skip countState_counted)

lemma mostCommonDistractor_throws:
  "list_ex stringThrows states \<Longrightarrow> computeMostCommonDistractor numStr states inclTalking = Inl TypeError"
  by (simp add: computeMostCommonDistractor_def countStates_throws)

text \<open>
  The parts of C6 that hold on every window: labels that are empty, focused-equivalent
  or, with talking disabled, talking labels take no part, and a window without a
  candidate gives no label.
\<close>

lemma mostCommonDistractor_ignores:
  "\<not> list_ex stringThrows states \<Longrightarrow>
   computeMostCommonDistractor numStr states inclTalking
     = computeMostCommonDistractor numStr (filter (counted numStr inclTalking) states) inclTalking"
  unfolding computeMostCommonDistractor_def
  by (subst countStates_filter) simp_all

lemma mostCommonDistractor_no_candidate:
  assumes "\<not> list_ex stringThrows states" and "filter (counted numStr inclTalking) states = []"
  shows "computeMostCommonDistractor numStr states inclTalking = Inr []"
proof -
  have "computeMostCommonDistractor numStr [] inclTalking = Inr []"
    by (simp add: computeMostCommonDistractor_def objectEntries_def)
  with mostCommonDistractor_ignores[OF assms(1), of numStr inclTalking] assms(2) show ?thesis by simp
qed

lemma firstSeen_snoc:
  "firstSeen (ks @ [k]) = (if k \<in> set ks then firstSeen ks else firstSeen ks @ [k])"
  by (simp add: firstSeen_def)

lemma set_firstSeen [simp]: "set (firstSeen ks) = set ks"
  by (simp add: firstSeen_def)

lemma distinct_firstSeen [simp]: "distinct (firstSeen ks)"
  by (simp add: firstSeen_def)

lemma find_snoc:
  "find P (xs @ [x]) = (case find P xs of Some y \<Rightarrow> Some y | None \<Rightarrow> if P x then Some x else None)"
  by (induction xs) simp_all

lemma find_firstSeen: "find P (firstSeen ks) = find P ks"
proof (induction ks rule: rev_induct)
  case Nil
  then show ?case by (simp add: firstSeen_def)
next
  case (snoc k ks)
  show ?case
  proof (cases "k \<in> set ks")
    case True
    then have "find P ks = None \<Longrightarrow> \<not> P k" by (auto simp: find_None_iff)
    with True snoc show ?thesis
      by (auto simp: firstSeen_snoc find_snoc split: option.splits)
  next
    case False
    with snoc show ?thesis by (simp add: firstSeen_snoc find_snoc)
  qed
qed

lemma map_of_tabulate:
  "map_of (map (\<lambda>k. (k, f k)) ds) k = (if k \<in> set ds then Some (f k) else None)"
  by (induction ds) simp_all

lemma count_list_snoc:
  "count_list (ks @ [k]) k' = count_list ks k' + (if k = k' then 1 else 0)"
  by (induction ks) simp_all

lemma count_list_zero: "k \<notin> set ks \<Longrightarrow> count_list ks k = 0"
  by (induction ks) auto

lemma countKeys_char:
  "countKeys ks = map (\<lambda>k. (k, count_list ks k)) (firstSeen ks)"
proof (induction ks rule: rev_induct)
  case Nil
  then show ?case by (simp add: countKeys_def firstSeen_def)
next
  case (snoc k ks)
  have s: "countKeys (ks @ [k]) = bumpCount k (countKeys ks)"
    by (simp add: countKeys_def)
  show ?case
  proof (cases "k \<in> set ks")
    case False
    then have "map_of (countKeys ks) k = None"
      by (simp add: snoc map_of_tabulate)
    then have "bumpCount k (countKeys ks) = countKeys ks @ [(k, 1)]"
      by (simp add: bumpCount_def)
    also have "\<dots> = map (\<lambda>k'. (k', count_list (ks @ [k]) k')) (firstSeen ks @ [k])"
      using False by (auto simp: snoc count_list_zero)
    finally show ?thesis using False by (simp only: s firstSeen_snoc if_False)
  next
    case True
    then have "map_of (countKeys ks) k = Some (count_list ks k)"
      by (simp add: snoc map_of_tabulate)
    then have "bumpCount k (countKeys ks)
        = map (\<lambda>(k', c'). if k' = k then (k', c' + 1) else (k', c')) (countKeys ks)"
      by (simp add: bumpCount_def)
    also have "\<dots> = map (\<lambda>k'. (k', count_list (ks @ [k]) k')) (firstSeen ks)"
      by (auto simp: snoc)
    finally show ?thesis using True by (simp only: s firstSeen_snoc if_True)
  qed
qed

lemma objectEntries_plain:
  "\<forall>kv \<in> set obj. \<not> isArrayIndex (fst kv) \<Longrightarrow> objectEntries obj = obj"
proof -
  assume a: "\<forall>kv \<in> set obj. \<not> isArrayIndex (fst kv)"
  then have "filter (\<lambda>kv. isArrayIndex (fst kv)) obj = []"
    by (simp add: filter_empty_conv)
  moreover from a have "filter (\<lambda>kv. \<not> isArrayIndex (fst kv)) obj = obj"
    by (simp add: filter_id_conv)
  ultimately show ?thesis by (simp add: objectEntries_def)
qed

lemma list_max_exists:
  fixes f :: "'a \<Rightarrow> nat"
  shows "ds \<noteq> [] \<Longrightarrow> \<exists>k \<in> set ds. \<forall>k' \<in> set ds. f k' \<le> f k"
proof (induction ds)
  case Nil
  then show ?case by simp
next
  case (Cons d ds)
  show ?case
  proof (cases "ds = []")
    case True
    then show ?thesis by simp
  next
    case False
    with Cons.IH obtain k where k: "k \<in> set ds" "\<forall>k' \<in> set ds. f k' \<le> f k" by blast
    show ?thesis
    proof (cases "f k \<le> f d")
      case True
      with k have "\<forall>k' \<in> set (d # ds). f k' \<le> f d" by auto
      then show ?thesis by auto
    next
      case False
      with k have "\<forall>k' \<in> set (d # ds). f k' \<le> f k" by auto
      with k(1) show ?thesis by auto
    qed
  qed
qed

lemma pickBest_fold:
  "foldl pickBest (bk, bc) (map (\<lambda>k. (k, f k)) ds)
     = (case find (\<lambda>k. bc < f k \<and> (\<forall>k' \<in> set ds. f k' \<le> f k)) ds of
          None \<Rightarrow> (bk, bc) | Some k \<Rightarrow> (k, f k))"
proof (induction ds arbitrary: bk bc)
  case Nil
  then show ?case by simp
next
  case (Cons d ds)
  show ?case
  proof (cases "bc < f d")
    case True
    have p: "pickBest (bk, bc) (d, f d) = (d, f d)" using True by (simp add: pickBest_def)
    show ?thesis
    proof (cases "\<forall>k' \<in> set ds. f k' \<le> f d")
      case True
      then have "find (\<lambda>k. f d < f k \<and> (\<forall>k' \<in> set ds. f k' \<le> f k)) ds = None"
        by (auto simp: find_None_iff)
      with True \<open>bc < f d\<close> show ?thesis
        by (simp add: p Cons.IH)
    next
      case False
      have "find (\<lambda>k. f d < f k \<and> (\<forall>k' \<in> set ds. f k' \<le> f k)) ds
          = find (\<lambda>k. bc < f k \<and> (\<forall>k' \<in> set (d # ds). f k' \<le> f k)) ds"
        using False \<open>bc < f d\<close> by (intro find_cong) (auto simp: not_le)
      moreover from False have "ds \<noteq> []" by auto
      from list_max_exists[OF this, of f] obtain k where
        k: "k \<in> set ds" "\<forall>k' \<in> set ds. f k' \<le> f k" by blast
      with False have "f d < f k" by (auto simp: not_le intro: less_le_trans)
      with k have "find (\<lambda>k. f d < f k \<and> (\<forall>k' \<in> set ds. f k' \<le> f k)) ds \<noteq> None"
        by (auto simp: find_None_iff)
      ultimately show ?thesis using False
        by (auto simp: p Cons.IH split: option.splits)
    qed
  next
    case False
    have p: "pickBest (bk, bc) (d, f d) = (bk, bc)" using False by (simp add: pickBest_def)
    have "find (\<lambda>k. bc < f k \<and> (\<forall>k' \<in> set ds. f k' \<le> f k)) ds
          = find (\<lambda>k. bc < f k \<and> (\<forall>k' \<in> set (d # ds). f k' \<le> f k)) ds"
      using False by (intro find_cong) (auto simp: not_less)
    with False show ?thesis
      by (simp add: p Cons.IH)
  qed
qed

lemma fold_counted:
  "list_all (counted numStr inclTalking) cs \<Longrightarrow> \<not> list_ex stringThrows cs \<Longrightarrow>
   countStates numStr inclTalking (C, L) cs
     = Inr (foldl (\<lambda>c k. bumpCount k c) C (map (stateKey numStr) cs),
            foldl (\<lambda>l s. setLabelOnce (stateKey numStr s) (stringText numStr s) l) L cs)"
  by (induction cs arbitrary: C L) (simp_all add: countState_counted)

lemma labelsOf_char:
  "map_of (labelsOf numStr cs) k
     = map_option (stringText numStr) (find (\<lambda>s. stateKey numStr s = k) cs)"
proof (induction cs rule: rev_induct)
  case Nil
  then show ?case by (simp add: labelsOf_def)
next
  case (snoc s cs)
  have l: "labelsOf numStr (cs @ [s])
      = setLabelOnce (stateKey numStr s) (stringText numStr s) (labelsOf numStr cs)"
    by (simp add: labelsOf_def)
  show ?case
    unfolding l using snoc
    by (auto simp: setLabelOnce_def find_snoc map_add_def split: option.splits)
qed

text \<open>
  When no counted label of the window is an array index, the resolver returns the label
  that the specification describes: the first-seen spelling of the first key whose count is
  the highest (the labels "constructor" and "__proto__" are not counted).
\<close>

lemma mostCommonDistractor_first_seen:
  assumes "\<not> list_ex stringThrows states"
    and "\<forall>s \<in> set states. counted numStr inclTalking s \<longrightarrow> \<not> isArrayIndex (stateKey numStr s)"
  shows "computeMostCommonDistractor numStr states inclTalking
     = Inr (case mostFrequentFirst (keysOf numStr inclTalking states) of
              None \<Rightarrow> [] | Some k \<Rightarrow> firstLabel numStr inclTalking states k)"
proof -
  define cs where "cs = filter (counted numStr inclTalking) states"
  define ks where "ks = map (stateKey numStr) cs"
  have all: "list_all (counted numStr inclTalking) cs"
    by (simp add: cs_def list_all_iff)
  have conv: "\<not> list_ex stringThrows cs"
    using assms(1) by (auto simp: cs_def list_ex_iff)
  have acc: "countStates numStr inclTalking ([], []) cs = Inr (countKeys ks, labelsOf numStr cs)"
    by (simp add: fold_counted[OF all conv] countKeys_def labelsOf_def ks_def)
  have plain: "\<forall>kv \<in> set (countKeys ks). \<not> isArrayIndex (fst kv)"
    using assms(2) by (auto simp: countKeys_char ks_def cs_def)
  have pos: "k \<in> set ks \<Longrightarrow> 0 < count_list ks k" for k
    by (simp add: count_list_0_iff zero_less_iff_neq_zero)
  have best: "foldl pickBest ([], 0) (objectEntries (countKeys ks))
      = (case mostFrequentFirst ks of None \<Rightarrow> ([], 0) | Some k \<Rightarrow> (k, count_list ks k))"
  proof -
    have "find (\<lambda>k. 0 < count_list ks k \<and> (\<forall>k' \<in> set (firstSeen ks). count_list ks k' \<le> count_list ks k)) (firstSeen ks)
        = find (\<lambda>k. 0 < count_list ks k \<and> (\<forall>k' \<in> set ks. count_list ks k' \<le> count_list ks k)) ks"
      by (simp add: find_firstSeen)
    also have "\<dots> = mostFrequentFirst ks"
      unfolding mostFrequentFirst_def by (intro find_cong) (auto simp: pos)
    finally have f: "find (\<lambda>k. 0 < count_list ks k \<and> (\<forall>k' \<in> set (firstSeen ks). count_list ks k' \<le> count_list ks k)) (firstSeen ks)
        = mostFrequentFirst ks" .
    have "foldl pickBest ([], 0) (objectEntries (countKeys ks)) = foldl pickBest ([], 0) (countKeys ks)"
      by (simp only: objectEntries_plain[OF plain])
    also have "\<dots> = foldl pickBest ([], 0) (map (\<lambda>k. (k, count_list ks k)) (firstSeen ks))"
      by (simp only: countKeys_char)
    also have "\<dots> = (case mostFrequentFirst ks of None \<Rightarrow> ([], 0) | Some k \<Rightarrow> (k, count_list ks k))"
      by (simp only: pickBest_fold f)
    finally show ?thesis .
  qed
  have nonempty: "k \<in> set ks \<Longrightarrow> k \<noteq> []" for k
    by (auto simp: ks_def cs_def counted_def)
  have "computeMostCommonDistractor numStr cs inclTalking
      = Inr (case mostFrequentFirst ks of None \<Rightarrow> []
         | Some k \<Rightarrow> (case find (\<lambda>s. stateKey numStr s = k) cs of None \<Rightarrow> [] | Some s \<Rightarrow> stringText numStr s))"
  proof (cases "mostFrequentFirst ks")
    case None
    then show ?thesis
      by (simp add: computeMostCommonDistractor_def acc best)
  next
    case (Some k)
    then have "k \<in> set ks" by (auto simp: mostFrequentFirst_def find_Some_iff)
    with nonempty have "k \<noteq> []" by simp
    with Some show ?thesis
      by (simp add: computeMostCommonDistractor_def acc best labelsOf_char split: option.splits)
  qed
  with mostCommonDistractor_ignores[OF assms(1), of numStr inclTalking] show ?thesis
    unfolding cs_def ks_def keysOf_def firstLabel_def by simp
qed

text \<open>
  C6 fails on the code. The window holds "Looking Left" and then "7", once each. The
  counts are the properties of a plain object, and \<^verbatim>\<open>Object.entries\<close> lists the array
  index "7" before "looking left": the later label wins the tie. With two labels that are
  not array indices the first seen wins. A window that holds only "constructor" gives no
  label, although that label is a candidate.
\<close>

theorem mostCommonDistractor_numeric_label:
  "computeMostCommonDistractor (\<lambda>n. []) [JStr ''Looking Left'', JStr ''7''] (JBool True) = Inr ''7''
   \<and> computeMostCommonDistractor (\<lambda>n. []) [JStr ''Looking Left'', JStr ''Looking Up''] (JBool True)
       = Inr ''Looking Left''
   \<and> computeMostCommonDistractor (\<lambda>n. []) [JStr ''constructor''] (JBool True) = Inr []"
  by code_simp

section \<open>Properties of the alert scheduler\<close>

lemma socketPart_fields [simp]:
  "timers (socketPart st) = timers st"
  "alertTimeoutRef (socketPart st) = alertTimeoutRef st"
  "alertQueuedRef (socketPart st) = alertQueuedRef st"
  "alertQueue (socketPart st) = alertQueue st"
  "alertCleanup (socketPart st) = alertCleanup st"
  "alertDepsPrev (socketPart st) = alertDepsPrev st"
  "lessonStarted (socketPart st) = lessonStarted st"
  "focusLevel (socketPart st) = focusLevel st"
  "distractedStartRef (socketPart st) = distractedStartRef st"
  "distractorReason (socketPart st) = distractorReason st"
  "visionState (socketPart st) = visionState st"
  "characterChoice (socketPart st) = characterChoice st"
  "backendConfig (socketPart st) = backendConfig st"
  "visionConfig (socketPart st) = visionConfig st"
  "configId (socketPart st) = configId st"
  by (simp_all add: socketPart_def socketEffect_def)

lemma socketPart_derived [simp]:
  "focusWarningActive (socketPart st) = focusWarningActive st"
  "alertDepsOf (socketPart st) = alertDepsOf st"
  by (simp_all add: focusWarningActive_def alertDepsOf_def effectiveIncludeTalking_def)

lemma socketPart_invariants [simp]:
  "timerOK E (socketPart st) = timerOK E st"
  "queueOK q0 (socketPart st) = queueOK q0 st"
  "depsRecorded (socketPart st) = depsRecorded st"
  by (simp_all add: timerOK_def queueOK_def depsRecorded_def cong: list.case_cong option.case_cong)

lemma timelineEffect_fields [simp]:
  "timers (timelineEffect now st) = timers st"
  "alertTimeoutRef (timelineEffect now st) = alertTimeoutRef st"
  "alertQueuedRef (timelineEffect now st) = alertQueuedRef st"
  "alertQueue (timelineEffect now st) = alertQueue st"
  "alertCleanup (timelineEffect now st) = alertCleanup st"
  "alertDepsPrev (timelineEffect now st) = alertDepsPrev st"
  "lessonStarted (timelineEffect now st) = lessonStarted st"
  by (simp_all add: timelineEffect_def Let_def)

lemma timelinePart_fields [simp]:
  "timers (timelinePart now st) = timers st"
  "alertTimeoutRef (timelinePart now st) = alertTimeoutRef st"
  "alertQueuedRef (timelinePart now st) = alertQueuedRef st"
  "alertQueue (timelinePart now st) = alertQueue st"
  "alertCleanup (timelinePart now st) = alertCleanup st"
  "alertDepsPrev (timelinePart now st) = alertDepsPrev st"
  "lessonStarted (timelinePart now st) = lessonStarted st"
  "focusLevel (timelinePart now st) = focusLevel st"
  by (simp_all add: timelinePart_def)

lemma timelinePart_derived [simp]:
  "focusWarningActive (timelinePart now st) = focusWarningActive st"
  by (simp add: focusWarningActive_def)

lemma timelinePart_invariants [simp]:
  "timerOK E (timelinePart now st) = timerOK E st"
  "queueOK q0 (timelinePart now st) = queueOK q0 st"
  "depsRecorded (timelinePart now st) = depsRecorded st"
  by (simp_all add: timerOK_def queueOK_def depsRecorded_def cong: list.case_cong option.case_cong)

text \<open>The alert effect, run in a session.\<close>

lemma alertDepsSame_recorded:
  "alertDepsSame (alertDepsPrev st) (alertDepsOf st) \<Longrightarrow> depsRecorded st"
  by (auto simp: alertDepsSame_def depsRecorded_def alertDepsOf_def split: option.splits prod.splits)

lemma alertDepsSame_changed:
  assumes "alertDepsPrev st = Some d" and "fst d \<noteq> focusWarningActive st"
  shows "\<not> alertDepsSame (alertDepsPrev st) (alertDepsOf st)"
  using assms by (auto simp: alertDepsSame_def alertDepsOf_def split: prod.splits)

lemma cleanup_timers:
  assumes "timerOK E st"
  shows "timers (alertEffectCleanup st) = []"
    and "alertQueuedRef (alertEffectCleanup st) = alertQueuedRef st"
    and "alertQueue (alertEffectCleanup st) = alertQueue st"
    and "lessonStarted (alertEffectCleanup st) = lessonStarted st"
    and "focusWarningActive (alertEffectCleanup st) = focusWarningActive st"
    and "distractedStartRef (alertEffectCleanup st) = distractedStartRef st"
    and "alertDepsOf (alertEffectCleanup st) = alertDepsOf st"
  using assms
  by (auto simp: timerOK_def alertEffectCleanup_def clearAlertTimeout_def focusWarningActive_def
        alertDepsOf_def effectiveIncludeTalking_def
      split: list.splits option.splits)

lemma alertEffect_other_fields [simp]:
  "alertQueue (alertEffect now st) = alertQueue st"
  "lessonStarted (alertEffect now st) = lessonStarted st"
  "focusWarningActive (alertEffect now st) = focusWarningActive st"
  "distractedStartRef (alertEffect now st) = distractedStartRef st"
  by (simp_all add: alertEffect_def Let_def clearAlertTimeout_def focusWarningActive_def
        split: option.splits)

lemma alertEffect_schedule:
  assumes "lessonStarted c" "focusWarningActive c" "\<not> alertQueuedRef c" "timers c = []"
  shows "\<exists>tm. timers (alertEffect now c) = [(nextTimerId c, tm)]
           \<and> t_due tm = now + remainingDelay now c \<and> t_focusWarningActive tm"
    and "alertTimeoutRef (alertEffect now c) = Some (nextTimerId c)"
    and "alertCleanup (alertEffect now c)"
    and "\<not> alertQueuedRef (alertEffect now c)"
  using assms by (simp_all add: alertEffect_def Let_def remainingDelay_def)

lemma alertEffect_queued:
  assumes "lessonStarted c" "focusWarningActive c" "alertQueuedRef c"
  shows "alertEffect now c = c"
  using assms by (simp add: alertEffect_def)

lemma alertEffect_focused:
  assumes "lessonStarted c" "\<not> focusWarningActive c" "timers c = []"
  shows "timers (alertEffect now c) = []" and "\<not> alertQueuedRef (alertEffect now c)"
  using assms by (simp_all add: alertEffect_def clearAlertTimeout_def split: option.splits)

lemma remainingDelay_episode:
  "distractedStartRef c = Some E \<Longrightarrow> E \<noteq> 0 \<Longrightarrow> E + 4000 \<le> now + remainingDelay now c"
  by (simp add: remainingDelay_def truthyRef_def refValue_def)

lemma remainingDelay_onset:
  "\<not> truthyRef (distractedStartRef c) \<Longrightarrow> remainingDelay now c = 4000"
  by (simp add: remainingDelay_def)

lemma alertPart_same:
  "alertDepsSame (alertDepsPrev st) (alertDepsOf st) \<Longrightarrow> alertPart now st = st"
  by (simp add: alertPart_def)

lemma alertPart_run:
  "\<not> alertDepsSame (alertDepsPrev st) (alertDepsOf st) \<Longrightarrow>
   alertPart now st = (alertEffect now (alertEffectCleanup st))\<lparr>alertDepsPrev := Some (alertDepsOf st)\<rparr>"
  by (simp add: alertPart_def)

lemma alertPart_other_fields [simp]:
  "alertQueue (alertPart now st) = alertQueue st"
  "lessonStarted (alertPart now st) = lessonStarted st"
  "focusWarningActive (alertPart now st) = focusWarningActive st"
  "distractedStartRef (alertPart now st) = distractedStartRef st"
proof -
  have c: "alertQueue (alertEffectCleanup st) = alertQueue st"
    "lessonStarted (alertEffectCleanup st) = lessonStarted st"
    "focusWarningActive (alertEffectCleanup st) = focusWarningActive st"
    "distractedStartRef (alertEffectCleanup st) = distractedStartRef st"
    by (simp_all add: alertEffectCleanup_def clearAlertTimeout_def focusWarningActive_def split: option.splits)
  have u: "focusWarningActive (s\<lparr>alertDepsPrev := x\<rparr>) = focusWarningActive s" for s x
    by (simp add: focusWarningActive_def)
  show "alertQueue (alertPart now st) = alertQueue st"
    "lessonStarted (alertPart now st) = lessonStarted st"
    "focusWarningActive (alertPart now st) = focusWarningActive st"
    "distractedStartRef (alertPart now st) = distractedStartRef st"
    by (simp_all add: alertPart_def c u)
qed

lemma depsRecorded_after_run:
  "\<not> alertDepsSame (alertDepsPrev st) (alertDepsOf st) \<Longrightarrow> depsRecorded (alertPart now st)"
proof -
  assume a: "\<not> alertDepsSame (alertDepsPrev st) (alertDepsOf st)"
  have "alertDepsPrev (alertPart now st) = Some (alertDepsOf st)"
    by (simp add: alertPart_run[OF a])
  then show ?thesis
    by (simp add: depsRecorded_def alertDepsOf_def)
qed

lemma depsRecorded_alertPart: "depsRecorded (alertPart now st)"
proof (cases "alertDepsSame (alertDepsPrev st) (alertDepsOf st)")
  case True
  then show ?thesis by (simp add: alertPart_same alertDepsSame_recorded)
next
  case False
  then show ?thesis by (rule depsRecorded_after_run)
qed

text \<open>The alert part of a render during an episode that began at \<open>E\<close>.\<close>

lemma alertPart_episode:
  assumes "lessonStarted st" "focusWarningActive st" "distractedStartRef st = Some E" "E \<noteq> 0"
    "timerOK E st" "queueOK q0 st"
  shows "timerOK E (alertPart now st) \<and> queueOK q0 (alertPart now st)
       \<and> alertQueuedRef (alertPart now st) = alertQueuedRef st"
proof (cases "alertDepsSame (alertDepsPrev st) (alertDepsOf st)")
  case True
  with assms show ?thesis by (simp add: alertPart_same)
next
  case False
  define c where "c = alertEffectCleanup st"
  note cl = cleanup_timers[OF assms(5), folded c_def]
  have z: "alertPart now st = (alertEffect now c)\<lparr>alertDepsPrev := Some (alertDepsOf st)\<rparr>"
    by (simp add: alertPart_run[OF False] c_def)
  have lc: "lessonStarted c" "focusWarningActive c" "distractedStartRef c = Some E"
    using cl assms by simp_all
  show ?thesis
  proof (cases "alertQueuedRef st")
    case True
    then have "alertEffect now c = c" using alertEffect_queued[OF lc(1) lc(2)] cl(2) by simp
    with cl assms(6) True show ?thesis
      by (simp add: z timerOK_def queueOK_def)
  next
    case False
    then have nq: "\<not> alertQueuedRef c" using cl(2) by simp
    from alertEffect_schedule[OF lc(1) lc(2) nq cl(1), of now]
      remainingDelay_episode[OF lc(3) assms(4), of now]
    have "timerOK E (alertEffect now c)" and nq': "\<not> alertQueuedRef (alertEffect now c)"
      by (auto simp: timerOK_def)
    with assms(6) False cl(3) show ?thesis
      by (simp add: z timerOK_def queueOK_def cong: list.case_cong)
  qed
qed

lemma alertPart_onset:
  assumes "lessonStarted st" "focusWarningActive st" "\<not> truthyRef (distractedStartRef st)"
    "timers st = []" "\<not> alertQueuedRef st" "alertDepsPrev st = Some d" "\<not> fst d"
  shows "(\<exists>i tm. timers (alertPart now st) = [(i, tm)] \<and> t_due tm = now + 4000)
       \<and> timerOK now (alertPart now st) \<and> \<not> alertQueuedRef (alertPart now st)"
proof -
  have ch: "\<not> alertDepsSame (alertDepsPrev st) (alertDepsOf st)"
    using alertDepsSame_changed[OF assms(6)] assms(2,7) by simp
  define c where "c = alertEffectCleanup st"
  have ok: "timerOK 0 st" using assms(4) by (simp add: timerOK_def)
  note cl = cleanup_timers[OF ok, folded c_def]
  have z: "alertPart now st = (alertEffect now c)\<lparr>alertDepsPrev := Some (alertDepsOf st)\<rparr>"
    by (simp add: alertPart_run[OF ch] c_def)
  have lc: "lessonStarted c" "focusWarningActive c" "\<not> truthyRef (distractedStartRef c)"
    "\<not> alertQueuedRef c"
    using cl assms by simp_all
  from alertEffect_schedule[OF lc(1) lc(2) lc(4) cl(1), of now] remainingDelay_onset[OF lc(3), of now]
  show ?thesis
    by (auto simp: z timerOK_def)
qed

lemma alertPart_focused:
  assumes "lessonStarted st" "\<not> focusWarningActive st" "timerOK E st"
    "alertDepsSame (alertDepsPrev st) (alertDepsOf st) \<longrightarrow> timers st = [] \<and> \<not> alertQueuedRef st"
  shows "timers (alertPart now st) = [] \<and> \<not> alertQueuedRef (alertPart now st)"
proof (cases "alertDepsSame (alertDepsPrev st) (alertDepsOf st)")
  case True
  with assms(4) show ?thesis by (simp add: alertPart_same)
next
  case False
  define c where "c = alertEffectCleanup st"
  note cl = cleanup_timers[OF assms(3), folded c_def]
  have z: "alertPart now st = (alertEffect now c)\<lparr>alertDepsPrev := Some (alertDepsOf st)\<rparr>"
    by (simp add: alertPart_run[OF False] c_def)
  have lc: "lessonStarted c" "\<not> focusWarningActive c"
    using cl assms by simp_all
  from alertEffect_focused[OF lc cl(1), of now] show ?thesis by (simp add: z)
qed

lemma timelinePart_dstart_keep:
  "focusWarningActive s \<Longrightarrow> truthyRef (distractedStartRef s) \<Longrightarrow>
   distractedStartRef (timelinePart now s) = distractedStartRef s"
  by (simp add: timelinePart_def timelineEffect_def Let_def)

lemma timelinePart_dstart_cases:
  "distractedStartRef (timelinePart now s) = distractedStartRef s
   \<or> distractedStartRef (timelinePart now s) = Some now
   \<or> distractedStartRef (timelinePart now s) = None"
  by (simp add: timelinePart_def timelineEffect_def Let_def)

lemma handle_alert_fields:
  assumes "\<not> isTimerFire e"
  shows "timers (handle numStr toNumber t e st) = timers st"
    and "alertTimeoutRef (handle numStr toNumber t e st) = alertTimeoutRef st"
    and "alertQueuedRef (handle numStr toNumber t e st) = alertQueuedRef st"
    and "alertQueue (handle numStr toNumber t e st) = alertQueue st"
    and "alertCleanup (handle numStr toNumber t e st) = alertCleanup st"
    and "alertDepsPrev (handle numStr toNumber t e st) = alertDepsPrev st"
  using assms
  by (cases e; simp add: handle_def startLesson_def endLesson_def Let_def split: option.splits)+

lemma alertCallback_fields [simp]:
  "timers (alertCallback tm st) = timers st"
  "alertTimeoutRef (alertCallback tm st) = alertTimeoutRef st"
  "alertCleanup (alertCallback tm st) = alertCleanup st"
  "alertDepsPrev (alertCallback tm st) = alertDepsPrev st"
  "focusLevel (alertCallback tm st) = focusLevel st"
  by (simp_all add: alertCallback_def Let_def split: option.splits)

lemma alertCallback_queue:
  "queueOK q0 st \<Longrightarrow> queueOK q0 (alertCallback tm st)"
  by (simp add: alertCallback_def Let_def queueOK_def split: option.splits)

lemma timerFire_fields [simp]:
  "alertTimeoutRef (timerFire i now st) = alertTimeoutRef st"
  "alertCleanup (timerFire i now st) = alertCleanup st"
  "alertDepsPrev (timerFire i now st) = alertDepsPrev st"
  "focusLevel (timerFire i now st) = focusLevel st"
  by (simp_all add: timerFire_def split: option.splits)

lemma timerFire_episode:
  assumes "timerOK E st" and "queueOK q0 st"
  shows "timerOK E (timerFire i u st) \<and> queueOK q0 (timerFire i u st)
       \<and> (u < E + 4000 \<longrightarrow> timerFire i u st = st)"
proof (cases "timers st")
  case Nil
  with assms show ?thesis by (simp add: timerFire_def)
next
  case (Cons p ps)
  with assms(1) have ps: "ps = []" and p: "alertTimeoutRef st = Some (fst p)" "alertCleanup st"
    "E + 4000 \<le> t_due (snd p)" "t_focusWarningActive (snd p)"
    by (simp_all add: timerOK_def split: list.splits)
  show ?thesis
  proof (cases "i = fst p \<and> t_due (snd p) \<le> u")
    case True
    have q: "queueOK q0 (st\<lparr>timers := []\<rparr>)" using assms(2) by (simp add: queueOK_def)
    have f: "timerFire i u st = alertCallback (snd p) (st\<lparr>timers := []\<rparr>)"
      using True Cons ps by (cases p) (simp add: timerFire_def)
    have t: "timerOK E (alertCallback (snd p) (st\<lparr>timers := []\<rparr>))"
      by (simp add: timerOK_def)
    have n: "\<not> u < E + 4000" using True p(3) by simp
    from alertCallback_queue[OF q, of "snd p"] t n show ?thesis
      unfolding f by simp
  next
    case False
    then have "timerFire i u st = st"
      using Cons ps by (cases p) (auto simp: timerFire_def)
    with assms show ?thesis by simp
  qed
qed

lemma commit_parts: "commit now st = timelinePart now (alertPart now (socketPart st))"
  by (simp add: commit_def)

lemma handle_timerFire:
  "handle numStr toNumber u (TimerFire i) st = timerFire i u st"
  by (simp add: handle_def)

lemma isTimerFire_cases: "isTimerFire e \<Longrightarrow> \<exists>i. e = TimerFire i"
  by (cases e) simp_all

lemma episode_step:
  assumes ep: "alertEpisode E q0 st" and ev: "sessionEvent (u, e)"
  shows "(focusWarningActive (step numStr toNumber (u, e) st)
            \<longrightarrow> alertEpisode E q0 (step numStr toNumber (u, e) st))
       \<and> (\<not> focusWarningActive (step numStr toNumber (u, e) st)
            \<longrightarrow> alertFocused (step numStr toNumber (u, e) st)
              \<and> alertQueue (step numStr toNumber (u, e) st) = alertQueue st)
       \<and> (u < E + 4000 \<longrightarrow> alertQueue (step numStr toNumber (u, e) st) = alertQueue st)"
proof -
  define X where "X = handle numStr toNumber u e st"
  define S where "S = socketPart X"
  define Z where "Z = alertPart u S"
  define st' where "st' = step numStr toNumber (u, e) st"
  have st': "st' = timelinePart u Z"
    by (simp add: st'_def step_def commit_parts X_def S_def Z_def)
  from ep have inv: "sessionInv st" and fw: "focusWarningActive st" and ds: "distractedStartRef st = Some E"
    and tok: "timerOK E st" and qok: "queueOK q0 st" and dr: "depsRecorded st"
    by (simp_all add: alertEpisode_def)
  from inv fw ds have E0: "E \<noteq> 0" by (simp add: sessionInv_def truthyRef_def)
  have si: "sessionInv st'"
    unfolding st'_def by (rule step_session(1)[OF inv ev])
  note hs = handle_session[OF ev, of numStr toNumber st, folded X_def]
  from inv hs have lX: "lessonStarted X" and dX: "distractedStartRef X = Some E"
    using ds by (simp_all add: sessionInv_def)
  have fw': "focusWarningActive st' = focusWarningActive X"
    by (simp add: st' Z_def S_def)
  have q': "alertQueue st' = alertQueue X"
    by (simp add: st' Z_def S_def)
  have TX: "timerOK E X \<and> queueOK q0 X \<and> alertDepsPrev X = alertDepsPrev st
       \<and> (u < E + 4000 \<longrightarrow> alertQueue X = alertQueue st)
       \<and> (\<not> focusWarningActive X \<longrightarrow> alertQueue X = alertQueue st)"
  proof (cases "isTimerFire e")
    case True
    then obtain i where e: "e = TimerFire i" using isTimerFire_cases by blast
    have X: "X = timerFire i u st" by (simp add: X_def e handle_timerFire)
    have "focusLevel X = focusLevel st" by (simp add: X)
    then have "focusWarningActive X" using fw by (simp add: focusWarningActive_def)
    with timerFire_episode[OF tok qok, of i u] show ?thesis
      by (auto simp: X)
  next
    case False
    note ha = handle_alert_fields[OF False, of numStr toNumber u st, folded X_def]
    from ha tok qok show ?thesis
      by (simp add: timerOK_def queueOK_def cong: list.case_cong)
  qed
  have dP: "depsRecorded st'"
    by (simp add: st' Z_def depsRecorded_alertPart)
  show ?thesis
  proof (cases "focusWarningActive X")
    case True
    from alertPart_episode[of S E q0 u] lX True dX E0 TX
    have Zok: "timerOK E Z \<and> queueOK q0 Z"
      by (simp add: S_def Z_def)
    have "distractedStartRef st' = distractedStartRef Z"
      unfolding st' by (rule timelinePart_dstart_keep) (simp_all add: Z_def S_def True dX truthyRef_def E0)
    then have "distractedStartRef st' = Some E" by (simp add: Z_def S_def dX)
    with si fw' True Zok dP TX q' show ?thesis
      unfolding st'_def[symmetric] by (simp add: alertEpisode_def st')
  next
    case False
    from dr obtain d where d: "alertDepsPrev st = Some d" "fst d = focusWarningActive st"
      by (auto simp: depsRecorded_def split: option.splits)
    have "alertDepsPrev S = Some d" using TX d by (simp add: S_def)
    moreover have "fst d \<noteq> focusWarningActive S" using d fw False by (simp add: S_def)
    ultimately have ch: "\<not> alertDepsSame (alertDepsPrev S) (alertDepsOf S)"
      by (rule alertDepsSame_changed)
    from alertPart_focused[of S E u] lX False TX ch
    have "timers Z = [] \<and> \<not> alertQueuedRef Z"
      by (simp add: S_def Z_def)
    with si fw' False dP TX q' show ?thesis
      unfolding st'_def[symmetric] by (simp add: alertFocused_def st')
  qed
qed

lemma focused_step:
  assumes fo: "alertFocused st" and ev: "sessionEvent (u, e)"
  shows "alertQueue (step numStr toNumber (u, e) st) = alertQueue st
       \<and> (\<not> focusWarningActive (step numStr toNumber (u, e) st)
            \<longrightarrow> alertFocused (step numStr toNumber (u, e) st))
       \<and> (focusWarningActive (step numStr toNumber (u, e) st)
            \<longrightarrow> alertEpisode u (alertQueue st) (step numStr toNumber (u, e) st)
              \<and> (\<exists>i tm. timers (step numStr toNumber (u, e) st) = [(i, tm)] \<and> t_due tm = u + 4000))"
proof -
  define X where "X = handle numStr toNumber u e st"
  define S where "S = socketPart X"
  define Z where "Z = alertPart u S"
  define st' where "st' = step numStr toNumber (u, e) st"
  have st': "st' = timelinePart u Z"
    by (simp add: st'_def step_def commit_parts X_def S_def Z_def)
  from fo have inv: "sessionInv st" and fw: "\<not> focusWarningActive st" and tm: "timers st = []"
    and nq: "\<not> alertQueuedRef st" and dr: "depsRecorded st"
    by (simp_all add: alertFocused_def)
  from ev have u0: "u \<noteq> 0" by (cases e) simp_all
  have si: "sessionInv st'"
    unfolding st'_def by (rule step_session(1)[OF inv ev])
  note hs = handle_session[OF ev, of numStr toNumber st, folded X_def]
  from inv hs fw have lX: "lessonStarted X" and dX: "\<not> truthyRef (distractedStartRef X)"
    by (simp_all add: sessionInv_def)
  have fw': "focusWarningActive st' = focusWarningActive X"
    by (simp add: st' Z_def S_def)
  have q': "alertQueue st' = alertQueue X"
    by (simp add: st' Z_def S_def)
  have TX: "timers X = [] \<and> \<not> alertQueuedRef X \<and> alertQueue X = alertQueue st
      \<and> alertDepsPrev X = alertDepsPrev st"
  proof (cases "isTimerFire e")
    case True
    then obtain i where e: "e = TimerFire i" using isTimerFire_cases by blast
    have "X = st" using tm by (simp add: X_def e handle_timerFire timerFire_def)
    with tm nq show ?thesis by simp
  next
    case False
    note ha = handle_alert_fields[OF False, of numStr toNumber u st, folded X_def]
    from ha tm nq show ?thesis by simp
  qed
  have dP: "depsRecorded st'"
    by (simp add: st' Z_def depsRecorded_alertPart)
  show ?thesis
  proof (cases "focusWarningActive X")
    case True
    from dr obtain d where d: "alertDepsPrev st = Some d" "fst d = focusWarningActive st"
      by (auto simp: depsRecorded_def split: option.splits)
    from alertPart_onset[of S d u] lX True dX TX d fw
    have Zok: "(\<exists>i tm. timers Z = [(i, tm)] \<and> t_due tm = u + 4000)
       \<and> timerOK u Z \<and> \<not> alertQueuedRef Z"
      by (simp add: S_def Z_def)
    have dZ: "\<not> truthyRef (distractedStartRef Z)" using dX by (simp add: Z_def S_def)
    from si fw' True have "truthyRef (distractedStartRef st')" by (simp add: sessionInv_def)
    with timelinePart_dstart_cases[of u Z] dZ have "distractedStartRef st' = Some u"
      by (auto simp: st' truthyRef_def)
    with si fw' True Zok dP TX q' show ?thesis
      unfolding st'_def[symmetric] by (simp add: alertEpisode_def queueOK_def st')
  next
    case False
    have ok: "timerOK 0 S" using TX by (simp add: S_def timerOK_def)
    from alertPart_focused[of S 0 u] lX False TX ok
    have "timers Z = [] \<and> \<not> alertQueuedRef Z"
      by (simp add: S_def Z_def)
    with si fw' False dP TX q' show ?thesis
      unfolding st'_def[symmetric] by (simp add: alertFocused_def st')
  qed
qed

lemma episode_run:
  assumes "alertEpisode E q0 st" and "list_all sessionEvent seg"
    and "list_all focusWarningActive (statesOf numStr toNumber seg st)"
  shows "alertEpisode E q0 (run numStr toNumber seg st)
       \<and> (list_all (\<lambda>x. fst x < E + 4000) seg \<longrightarrow> alertQueue (run numStr toNumber seg st) = alertQueue st)"
  using assms
proof (induction seg arbitrary: st)
  case Nil
  then show ?case by simp
next
  case (Cons x seg)
  obtain u e where x: "x = (u, e)" by (cases x)
  define s1 where "s1 = step numStr toNumber (u, e) st"
  from Cons.prems x have ev: "sessionEvent (u, e)" and rest: "list_all sessionEvent seg"
    and f1: "focusWarningActive s1"
    and fr: "list_all focusWarningActive (statesOf numStr toNumber seg s1)"
    by (simp_all add: s1_def)
  from episode_step[OF Cons.prems(1) ev, of numStr toNumber, folded s1_def] f1
  have e1: "alertEpisode E q0 s1" and q1: "u < E + 4000 \<longrightarrow> alertQueue s1 = alertQueue st"
    by simp_all
  from Cons.IH[OF e1 rest fr] q1 show ?case
    by (simp add: x s1_def[symmetric])
qed

lemma alertEpisode_queue:
  "alertEpisode E q0 st \<Longrightarrow> alertQueue st = q0 \<or> (\<exists>x. alertQueue st = q0 @ [x])"
  by (auto simp: alertEpisode_def queueOK_def split: if_splits)

lemma alertCallback_resolved:
  assumes "t_focusWarningActive tm" "\<not> alertQueuedRef st" "resolvedAsset tm = Some asset"
  shows "alertQueue (alertCallback tm st) = alertQueue st @ [asset]"
  using assms
  by (auto simp: alertCallback_def resolvedAsset_def stateCandidate_def Let_def split: if_splits)

lemma alertQueue_commit [simp]: "alertQueue (commit now st) = alertQueue st"
  by (simp add: commit_parts)

lemma fire_resolved:
  assumes "timers st = [(i, tm)]" "t_focusWarningActive tm" "\<not> alertQueuedRef st" "t_due tm \<le> u"
    "resolvedAsset tm = Some asset"
  shows "alertQueue (step numStr toNumber (u, TimerFire i) st) = alertQueue st @ [asset]"
proof -
  have "timerFire i u st = alertCallback tm (st\<lparr>timers := []\<rparr>)"
    using assms(1,4) by (simp add: timerFire_def)
  moreover have "alertQueue (alertCallback tm (st\<lparr>timers := []\<rparr>)) = alertQueue (st\<lparr>timers := []\<rparr>) @ [asset]"
    by (rule alertCallback_resolved) (use assms in simp_all)
  ultimately show ?thesis
    by (simp add: step_def handle_timerFire)
qed

lemma alertEffect_delay:
  assumes "lessonStarted c" "focusWarningActive c" "\<not> alertQueuedRef c"
  shows "\<exists>tm. timers (alertEffect now c) = timers c @ [(nextTimerId c, tm)]
            \<and> t_due tm = now + max (4000 - (now - (if truthyRef (distractedStartRef c)
                                                     then refValue (distractedStartRef c) else now))) 0"
  using assms by (simp add: alertEffect_def Let_def)

lemma episode_debounce:
  fixes numStr :: "jsnum \<Rightarrow> string" and toNumber :: "string \<Rightarrow> jsnum"
    and E :: int and e :: event and es :: "(int \<times> event) list" and a :: App
  defines "b \<equiv> step numStr toNumber (E, e) a"
  defines "c \<equiv> run numStr toNumber es (step numStr toNumber (E, e) a)"
  assumes "alertFocused a" and "sessionEvent (E, e)" and "list_all sessionEvent es"
    and "focusWarningActive (step numStr toNumber (E, e) a)"
    and "list_all focusWarningActive (statesOf numStr toNumber es (step numStr toNumber (E, e) a))"
  shows "(\<exists>i tm. timers b = [(i, tm)] \<and> t_due tm = E + 4000)
     \<and> (alertQueue c = alertQueue a \<or> (\<exists>x. alertQueue c = alertQueue a @ [x]))
     \<and> (list_all (\<lambda>x. fst x < E + 4000) es \<longrightarrow> alertQueue c = alertQueue a)
     \<and> (\<forall>u ev. sessionEvent (u, ev) \<and> \<not> focusWarningActive (step numStr toNumber (u, ev) c)
           \<longrightarrow> alertQueue (step numStr toNumber (u, ev) c) = alertQueue c
             \<and> alertFocused (step numStr toNumber (u, ev) c))
     \<and> (\<forall>u i tm asset. timers c = [(i, tm)] \<and> \<not> alertQueuedRef c \<and> t_due tm \<le> u
             \<and> resolvedAsset tm = Some asset
           \<longrightarrow> alertQueue (step numStr toNumber (u, TimerFire i) c) = alertQueue c @ [asset])
     \<and> (\<forall>now s. lessonStarted s \<and> focusWarningActive s \<and> \<not> alertQueuedRef s
           \<longrightarrow> (\<exists>tm. timers (alertEffect now s) = timers s @ [(nextTimerId s, tm)]
                  \<and> t_due tm = now + max (4000 - (now - (if truthyRef (distractedStartRef s)
                                                     then refValue (distractedStartRef s) else now))) 0))"
proof -
  from focused_step[OF assms(3) assms(4), of numStr toNumber] assms(6)
  have qb: "alertQueue b = alertQueue a" and eb: "alertEpisode E (alertQueue a) b"
    and tb: "\<exists>i tm. timers b = [(i, tm)] \<and> t_due tm = E + 4000"
    by (simp_all add: b_def)
  from episode_run[OF eb assms(5), of numStr toNumber] assms(7)
  have ec: "alertEpisode E (alertQueue a) c"
    and nc: "list_all (\<lambda>x. fst x < E + 4000) es \<longrightarrow> alertQueue c = alertQueue a"
    by (simp_all add: b_def c_def qb[unfolded b_def])
  have rec: "alertQueue (step numStr toNumber (u, ev) c) = alertQueue c
             \<and> alertFocused (step numStr toNumber (u, ev) c)"
    if "sessionEvent (u, ev) \<and> \<not> focusWarningActive (step numStr toNumber (u, ev) c)" for u ev
    using episode_step[OF ec, of u ev numStr toNumber] that by simp
  have fire: "alertQueue (step numStr toNumber (u, TimerFire i) c) = alertQueue c @ [asset]"
    if "timers c = [(i, tm)] \<and> \<not> alertQueuedRef c \<and> t_due tm \<le> u \<and> resolvedAsset tm = Some asset"
    for u i tm asset
  proof -
    from ec that have "t_focusWarningActive tm" by (simp add: alertEpisode_def timerOK_def)
    with that show ?thesis by (simp add: fire_resolved)
  qed
  from tb alertEpisode_queue[OF ec] nc rec fire alertEffect_delay show ?thesis
    by blast
qed

lemma timerPending_OK: "timerPending st \<Longrightarrow> \<exists>E. timerOK E st"
proof (cases "timers st")
  case Nil
  then show ?thesis by (simp add: timerOK_def)
next
  case (Cons p ps)
  assume "timerPending st"
  with Cons have "timerOK (t_due (snd p) - 4000) st"
    by (simp add: timerPending_def timerOK_def split: list.splits)
  then show ?thesis ..
qed

lemma timerOK_pending: "timerOK E st \<Longrightarrow> timerPending st"
  by (auto simp: timerPending_def timerOK_def split: list.splits)

lemma timerPending_parts [simp]:
  "timerPending (socketPart st) = timerPending st"
  "timerPending (timelinePart now st) = timerPending st"
  by (simp_all add: timerPending_def cong: list.case_cong)

lemma alertPart_scheduler:
  assumes "timerPending st"
    and "alertDepsSame (alertDepsPrev st) (alertDepsOf st) \<longrightarrow>
           (lessonStarted st \<and> \<not> focusWarningActive st \<longrightarrow> timers st = [] \<and> \<not> alertQueuedRef st)
           \<and> (\<not> lessonStarted st \<longrightarrow> timers st = [])"
  shows "timerPending (alertPart now st)
     \<and> (lessonStarted st \<and> \<not> focusWarningActive st
          \<longrightarrow> timers (alertPart now st) = [] \<and> \<not> alertQueuedRef (alertPart now st))
     \<and> (\<not> lessonStarted st \<longrightarrow> timers (alertPart now st) = [])"
proof (cases "alertDepsSame (alertDepsPrev st) (alertDepsOf st)")
  case True
  with assms show ?thesis by (simp add: alertPart_same)
next
  case False
  from timerPending_OK[OF assms(1)] obtain E where ok: "timerOK E st" ..
  define c where "c = alertEffectCleanup st"
  note cl = cleanup_timers[OF ok, folded c_def]
  have z: "alertPart now st = (alertEffect now c)\<lparr>alertDepsPrev := Some (alertDepsOf st)\<rparr>"
    by (simp add: alertPart_run[OF False] c_def)
  have p: "timerPending (s\<lparr>alertDepsPrev := x\<rparr>) = timerPending s" for s x
    by (simp add: timerPending_def cong: list.case_cong)
  show ?thesis
  proof (cases "lessonStarted st")
    case False
    then have "alertEffect now c = c" using cl(4) by (simp add: alertEffect_def)
    with cl False show ?thesis by (simp add: z p timerPending_def)
  next
    case True
    note ls = this
    show ?thesis
    proof (cases "focusWarningActive st")
      case False
      from alertEffect_focused[of c now] cl ls False
      show ?thesis by (simp add: z p timerPending_def)
    next
      case True
      show ?thesis
      proof (cases "alertQueuedRef c")
        case True
        then have "alertEffect now c = c" using cl ls \<open>focusWarningActive st\<close>
          by (simp add: alertEffect_queued)
        with cl ls \<open>focusWarningActive st\<close> show ?thesis by (simp add: z p timerPending_def)
      next
        case False
        from alertEffect_schedule[of c now] cl ls \<open>focusWarningActive st\<close> False
        have "timerPending (alertEffect now c)" by (auto simp: timerPending_def)
        with ls \<open>focusWarningActive st\<close> show ?thesis by (simp add: z p)
      qed
    qed
  qed
qed

lemma timerFire_pending:
  assumes "timerPending st"
  shows "timerPending (timerFire i u st)"
    and "timers st = [] \<Longrightarrow> timerFire i u st = st"
    and "lessonStarted (timerFire i u st) = lessonStarted st"
proof -
  show "timers st = [] \<Longrightarrow> timerFire i u st = st"
    by (simp add: timerFire_def)
  show "lessonStarted (timerFire i u st) = lessonStarted st"
    by (simp add: timerFire_def alertCallback_def Let_def split: option.splits)
  show "timerPending (timerFire i u st)"
  proof (cases "timers st")
    case Nil
    with assms show ?thesis by (simp add: timerFire_def)
  next
    case (Cons p ps)
    with assms have ps: "ps = []" by (simp add: timerPending_def split: list.splits)
    show ?thesis
    proof (cases "i = fst p \<and> t_due (snd p) \<le> u")
      case True
      have "timerFire i u st = alertCallback (snd p) (st\<lparr>timers := []\<rparr>)"
        using True Cons ps by (cases p) (simp add: timerFire_def)
      then show ?thesis by (simp add: timerPending_def)
    next
      case False
      then have "timerFire i u st = st"
        using Cons ps by (cases p) (auto simp: timerFire_def)
      with assms show ?thesis by simp
    qed
  qed
qed

lemma timerFire_timers:
  "timers (timerFire i u st) = timers st \<or> timers (timerFire i u st) = filter (\<lambda>p. fst p \<noteq> i) (timers st)"
  by (simp add: timerFire_def split: option.splits)

lemma schedulerInv_step:
  assumes "schedulerInv st"
  shows "schedulerInv (step numStr toNumber (u, e) st)"
proof -
  define X where "X = handle numStr toNumber u e st"
  define S where "S = socketPart X"
  define Z where "Z = alertPart u S"
  have st': "step numStr toNumber (u, e) st = timelinePart u Z"
    by (simp add: step_def commit_parts X_def S_def Z_def)
  from assms have dr: "depsRecorded st" and tp: "timerPending st"
    and fo: "lessonStarted st \<and> \<not> focusWarningActive st \<longrightarrow> timers st = [] \<and> \<not> alertQueuedRef st"
    and ns: "\<not> lessonStarted st \<longrightarrow> timers st = []"
    by (simp_all add: schedulerInv_def)
  have TX: "timerPending X \<and> alertDepsPrev X = alertDepsPrev st
     \<and> (lessonStarted X = lessonStarted st \<and> focusWarningActive X = focusWarningActive st
          \<longrightarrow> (lessonStarted X \<and> \<not> focusWarningActive X \<longrightarrow> timers X = [] \<and> \<not> alertQueuedRef X)
            \<and> (\<not> lessonStarted X \<longrightarrow> timers X = []))"
  proof (cases "isTimerFire e")
    case True
    then obtain i where e: "e = TimerFire i" using isTimerFire_cases by blast
    have X: "X = timerFire i u st" by (simp add: X_def e handle_timerFire)
    note tf = timerFire_pending[OF tp, of i u]
    show ?thesis
    proof (cases "timers st = []")
      case True
      with tf(2) have "X = st" by (simp add: X)
      with tp fo ns show ?thesis by simp
    next
      case False
      with fo ns have "lessonStarted st \<and> focusWarningActive st" by blast
      with tf show ?thesis by (simp add: X)
    qed
  next
    case False
    note ha = handle_alert_fields[OF False, of numStr toNumber u st, folded X_def]
    from ha tp fo ns show ?thesis
      by (simp add: timerPending_def cong: list.case_cong)
  qed
  from dr obtain d where d: "alertDepsPrev st = Some d" "fst d = focusWarningActive st"
    "fst (snd d) = lessonStarted st"
    by (auto simp: depsRecorded_def split: option.splits)
  have same: "alertDepsSame (alertDepsPrev S) (alertDepsOf S)
      \<longrightarrow> lessonStarted X = lessonStarted st \<and> focusWarningActive X = focusWarningActive st"
    using TX d by (auto simp: S_def alertDepsSame_def alertDepsOf_def split: prod.splits)
  from alertPart_scheduler[of S u] TX same
  have "timerPending Z
     \<and> (lessonStarted S \<and> \<not> focusWarningActive S \<longrightarrow> timers Z = [] \<and> \<not> alertQueuedRef Z)
     \<and> (\<not> lessonStarted S \<longrightarrow> timers Z = [])"
    unfolding Z_def by (simp add: S_def)
  then show ?thesis
    unfolding st' by (simp add: schedulerInv_def Z_def depsRecorded_alertPart S_def)
qed

lemma schedulerInv_run:
  "schedulerInv st \<Longrightarrow> schedulerInv (run numStr toNumber tr st)"
proof (induction tr arbitrary: st)
  case Nil
  then show ?case by simp
next
  case (Cons x tr)
  obtain u e where "x = (u, e)" by (cases x)
  with Cons schedulerInv_step[of st numStr toNumber u e] show ?case by simp
qed

lemma schedulerInv_mount: "schedulerInv (mount now)"
proof -
  have a: "timerPending initialApp" by (simp add: timerPending_def initialApp_def)
  have b: "\<not> lessonStarted initialApp" "timers initialApp = []" by (simp_all add: initialApp_def)
  from alertPart_scheduler[of "socketPart initialApp" now] a b
  show ?thesis
    by (simp add: mount_def commit_parts schedulerInv_def depsRecorded_alertPart)
qed

lemma alertFocused_start:
  assumes "schedulerInv s" and "startAccepted toNumber s" and "t0 \<noteq> 0"
  shows "alertFocused (step numStr toNumber (t0, StartLesson) s)"
proof -
  note ss = startLesson_session[OF assms(2) assms(3), of numStr]
  from schedulerInv_step[OF assms(1), of numStr toNumber t0 StartLesson] ss
  show ?thesis
    by (simp add: alertFocused_def schedulerInv_def sessionInv_def)
qed

lemma session_alert_run:
  assumes "if focusWarningActive st then (\<exists>E q0. alertEpisode E q0 st) else alertFocused st"
    and "list_all sessionEvent tr"
  shows "if focusWarningActive (run numStr toNumber tr st)
         then (\<exists>E q0. alertEpisode E q0 (run numStr toNumber tr st))
         else alertFocused (run numStr toNumber tr st)"
  using assms
proof (induction tr arbitrary: st)
  case Nil
  then show ?case by simp
next
  case (Cons x tr)
  obtain u e where x: "x = (u, e)" by (cases x)
  define s1 where "s1 = step numStr toNumber (u, e) st"
  from Cons.prems x have ev: "sessionEvent (u, e)" and rest: "list_all sessionEvent tr" by simp_all
  have "if focusWarningActive s1 then (\<exists>E q0. alertEpisode E q0 s1) else alertFocused s1"
  proof (cases "focusWarningActive st")
    case True
    with Cons.prems(1) obtain E q0 where "alertEpisode E q0 st" by auto
    from episode_step[OF this ev, of numStr toNumber] show ?thesis
      unfolding s1_def by auto
  next
    case False
    with Cons.prems(1) have "alertFocused st" by simp
    from focused_step[OF this ev, of numStr toNumber] show ?thesis
      unfolding s1_def by auto
  qed
  from Cons.IH[OF this rest] show ?case unfolding x s1_def by simp
qed

text \<open>
  The closure of the pending timeout. The alert effect runs again whenever one of its
  dependencies has changed, and its cleanup clears the timeout of the run before: so
  after every render the closure of a pending timeout holds the values of that render.
\<close>

lemma closureHolds_same:
  assumes "alertDepsSame (Some d) (alertDepsOf a)" and "alertDepsSame (Some d) (alertDepsOf b)"
  shows "closureHolds a tm = closureHolds b tm" and "currentAsset a = currentAsset b"
  using assms
  by (auto simp: alertDepsSame_def alertDepsOf_def sameValue_def closureHolds_def currentAsset_def
      Let_def split: prod.splits)

lemma closureHolds_deps:
  assumes "alertDepsOf a = alertDepsOf b"
  shows "closureHolds a tm = closureHolds b tm" and "currentAsset a = currentAsset b"
  using assms by (auto simp: alertDepsOf_def closureHolds_def currentAsset_def Let_def)

lemma alertDepsSame_refl [simp]: "alertDepsSame (Some (alertDepsOf st)) (alertDepsOf st)"
  by (simp add: alertDepsSame_def alertDepsOf_def sameValue_def)

lemma alertEffect_deps [simp]: "alertDepsOf (alertEffect now st) = alertDepsOf st"
  by (simp add: alertEffect_def Let_def alertDepsOf_def focusWarningActive_def
      effectiveIncludeTalking_def clearAlertTimeout_def split: option.splits)

lemma alertDepsOf_upd [simp]: "alertDepsOf (st\<lparr>alertDepsPrev := x\<rparr>) = alertDepsOf st"
  by (simp add: alertDepsOf_def focusWarningActive_def effectiveIncludeTalking_def)

lemma timelinePart_deps [simp]: "alertDepsOf (timelinePart now st) = alertDepsOf st"
  by (simp add: timelinePart_def timelineEffect_def Let_def alertDepsOf_def focusWarningActive_def
      effectiveIncludeTalking_def)

lemma alertEffect_closure:
  assumes "timers c = []"
  shows "list_all (\<lambda>p. closureHolds c (snd p)) (timers (alertEffect now c))"
  using assms
  by (simp add: alertEffect_def Let_def closureHolds_def clearAlertTimeout_def split: option.splits)

lemma closureCurrent_timelinePart [simp]:
  "closureCurrent (timelinePart now st) = closureCurrent st"
proof -
  have "closureHolds (timelinePart now st) tm = closureHolds st tm" for tm
    by (rule closureHolds_deps) simp
  then show ?thesis by (simp add: closureCurrent_def)
qed

lemma alertPart_closure:
  assumes tp: "timerPending S"
    and prev: "alertDepsSame (alertDepsPrev S) (alertDepsOf S)
                 \<longrightarrow> list_all (\<lambda>p. closureHolds S (snd p)) (timers S)"
  shows "closureCurrent (alertPart now S)"
proof (cases "alertDepsSame (alertDepsPrev S) (alertDepsOf S)")
  case True
  with prev show ?thesis by (simp add: alertPart_same closureCurrent_def)
next
  case False
  from timerPending_OK[OF tp] obtain E where ok: "timerOK E S" ..
  define c where "c = alertEffectCleanup S"
  note cl = cleanup_timers[OF ok, folded c_def]
  define Z where "Z = alertPart now S"
  have z: "Z = (alertEffect now c)\<lparr>alertDepsPrev := Some (alertDepsOf S)\<rparr>"
    by (simp add: Z_def alertPart_run[OF False] c_def)
  have d: "alertDepsOf Z = alertDepsOf S" by (simp add: z cl(7))
  have dc: "alertDepsOf Z = alertDepsOf c" by (simp add: z)
  have h: "closureHolds Z tm = closureHolds c tm" for tm
    by (rule closureHolds_deps(1)[OF dc])
  have t: "timers Z = timers (alertEffect now c)" by (simp add: z)
  have p: "alertDepsPrev Z = Some (alertDepsOf S)" by (simp add: z)
  from alertEffect_closure[OF cl(1), of now] show ?thesis
    unfolding Z_def[symmetric] by (simp add: closureCurrent_def h t p d)
qed

lemma closureCurrent_step:
  assumes cc: "closureCurrent st" and tp: "timerPending st"
  shows "closureCurrent (step numStr toNumber (u, e) st)"
proof -
  define X where "X = handle numStr toNumber u e st"
  define S where "S = socketPart X"
  have st': "step numStr toNumber (u, e) st = timelinePart u (alertPart u S)"
    by (simp add: step_def commit_parts X_def S_def)
  have hX: "alertDepsPrev X = alertDepsPrev st \<and> set (timers X) \<subseteq> set (timers st) \<and> timerPending X"
  proof (cases "isTimerFire e")
    case True
    then obtain i where e: "e = TimerFire i" using isTimerFire_cases by blast
    have X: "X = timerFire i u st" by (simp add: X_def e handle_timerFire)
    from timerFire_timers[of i u st] have "set (timers X) \<subseteq> set (timers st)"
      unfolding X by auto
    with timerFire_pending(1)[OF tp, of i u] show ?thesis by (simp add: X)
  next
    case False
    note ha = handle_alert_fields[OF False, of numStr toNumber u st, folded X_def]
    from ha tp show ?thesis
      by (simp add: timerPending_def cong: list.case_cong)
  qed
  from cc obtain d where d: "alertDepsPrev st = Some d" "alertDepsSame (Some d) (alertDepsOf st)"
    by (cases "alertDepsPrev st") (simp_all add: closureCurrent_def alertDepsSame_def)
  have prev: "alertDepsSame (alertDepsPrev S) (alertDepsOf S)
                 \<longrightarrow> list_all (\<lambda>p. closureHolds S (snd p)) (timers S)"
  proof
    assume "alertDepsSame (alertDepsPrev S) (alertDepsOf S)"
    then have s: "alertDepsSame (Some d) (alertDepsOf S)" using hX d(1) by (simp add: S_def)
    have "closureHolds S tm = closureHolds st tm" for tm
      by (rule closureHolds_same(1)[OF s d(2)])
    moreover from cc have "\<forall>p \<in> set (timers st). closureHolds st (snd p)"
      by (simp add: closureCurrent_def list_all_iff)
    ultimately show "list_all (\<lambda>p. closureHolds S (snd p)) (timers S)"
      using hX by (auto simp: S_def list_all_iff)
  qed
  have "timerPending S" using hX by (simp add: S_def)
  from alertPart_closure[OF this prev, of u] show ?thesis
    by (simp add: st')
qed

lemma closureCurrent_run:
  "schedulerInv st \<Longrightarrow> closureCurrent st \<Longrightarrow> closureCurrent (run numStr toNumber tr st)"
proof (induction tr arbitrary: st)
  case Nil
  then show ?case by simp
next
  case (Cons x tr)
  obtain u e where x: "x = (u, e)" by (cases x)
  from Cons.prems have "timerPending st" by (simp add: schedulerInv_def)
  from closureCurrent_step[OF Cons.prems(2) this, of numStr toNumber u e]
    schedulerInv_step[OF Cons.prems(1), of numStr toNumber u e] Cons.IH
  show ?case by (simp add: x)
qed

lemma closureCurrent_mount: "closureCurrent (mount now)"
proof -
  have a: "timerPending (socketPart initialApp)" by (simp add: timerPending_def initialApp_def)
  have b: "alertDepsPrev (socketPart initialApp) = None" by (simp add: initialApp_def)
  have "\<not> alertDepsSame (alertDepsPrev (socketPart initialApp)) (alertDepsOf (socketPart initialApp))"
    unfolding b by (simp add: alertDepsSame_def)
  then have "closureCurrent (alertPart now (socketPart initialApp))"
    by (intro alertPart_closure[OF a]) simp
  then show ?thesis by (simp add: mount_def commit_parts)
qed

text \<open>
  During an episode, no timeout is pending and no alert is queued only when the current
  label resolves to no asset.
\<close>

lemma resolved_current: "closureHolds st tm \<Longrightarrow> resolvedAsset tm = currentAsset st"
  by (simp add: closureHolds_def resolvedAsset_def stateCandidate_def currentAsset_def Let_def)

lemma alertCallback_outcome:
  "alertQueuedRef (alertCallback tm st)
   \<or> (alertCallback tm st = st \<and> (t_focusWarningActive tm \<longrightarrow> resolvedAsset tm = None))"
  by (auto simp: alertCallback_def resolvedAsset_def stateCandidate_def Let_def split: option.splits)

lemma idle_step:
  assumes ep: "alertEpisode E q0 st" and cc: "closureCurrent st" and iu: "idleUnresolved st"
    and ev: "sessionEvent (u, e)" and fw': "focusWarningActive (step numStr toNumber (u, e) st)"
  shows "idleUnresolved (step numStr toNumber (u, e) st)"
proof -
  define X where "X = handle numStr toNumber u e st"
  define S where "S = socketPart X"
  define Z where "Z = alertPart u S"
  have st': "step numStr toNumber (u, e) st = timelinePart u Z"
    by (simp add: step_def commit_parts X_def S_def Z_def)
  from ep have inv: "sessionInv st" and tok: "timerOK E st"
    by (simp_all add: alertEpisode_def)
  note hs = handle_session[OF ev, of numStr toNumber st, folded X_def]
  from inv hs have lS: "lessonStarted S" by (simp add: sessionInv_def S_def)
  from fw' have fS: "focusWarningActive S" by (simp add: st' Z_def)
  have ca: "currentAsset (timelinePart u Z) = currentAsset Z"
    by (rule closureHolds_deps(2)) simp
  have iZ: "idleUnresolved Z"
  proof (cases "alertDepsSame (alertDepsPrev S) (alertDepsOf S)")
    case False
    from timerOK_pending[OF tok] have tp: "timerPending st" .
    have "timerPending S"
    proof (cases "isTimerFire e")
      case True
      then obtain i where e: "e = TimerFire i" using isTimerFire_cases by blast
      from timerFire_pending(1)[OF tp, of i u] show ?thesis
        by (simp add: S_def X_def e handle_timerFire)
    next
      case False
      note ha = handle_alert_fields[OF False, of numStr toNumber u st, folded X_def]
      from ha tp show ?thesis by (simp add: S_def timerPending_def cong: list.case_cong)
    qed
    from timerPending_OK[OF this] obtain E' where ok: "timerOK E' S" ..
    define c where "c = alertEffectCleanup S"
    note cl = cleanup_timers[OF ok, folded c_def]
    have z: "Z = (alertEffect u c)\<lparr>alertDepsPrev := Some (alertDepsOf S)\<rparr>"
      by (simp add: Z_def alertPart_run[OF False] c_def)
    have lc: "lessonStarted c" "focusWarningActive c" using cl lS fS by simp_all
    show ?thesis
    proof (cases "alertQueuedRef c")
      case True
      then have "alertEffect u c = c" using lc by (simp add: alertEffect_queued)
      with True show ?thesis by (simp add: idleUnresolved_def z)
    next
      case False
      from alertEffect_schedule(1)[OF lc False cl(1), of u] show ?thesis
        by (auto simp: idleUnresolved_def z)
    qed
  next
    case True
    then have Z: "Z = S" by (simp add: Z_def alertPart_same)
    from cc obtain d where d: "alertDepsPrev st = Some d" "alertDepsSame (Some d) (alertDepsOf st)"
      by (cases "alertDepsPrev st") (simp_all add: closureCurrent_def alertDepsSame_def)
    have pX: "alertDepsPrev X = alertDepsPrev st"
    proof (cases "isTimerFire e")
      case True
      then obtain i where e: "e = TimerFire i" using isTimerFire_cases by blast
      show ?thesis by (simp add: X_def e handle_timerFire)
    next
      case False
      from handle_alert_fields(6)[OF False, of numStr toNumber u st] show ?thesis by (simp add: X_def)
    qed
    with True d(1) have "alertDepsSame (Some d) (alertDepsOf S)" by (simp add: S_def)
    from closureHolds_same(2)[OF this d(2)] have cS: "currentAsset S = currentAsset st" .
    have "timers X = [] \<and> \<not> alertQueuedRef X \<longrightarrow> currentAsset st = None"
    proof (cases "isTimerFire e")
      case False
      note ha = handle_alert_fields[OF False, of numStr toNumber u st, folded X_def]
      from ha iu show ?thesis by (simp add: idleUnresolved_def)
    next
      case True
      then obtain i where e: "e = TimerFire i" using isTimerFire_cases by blast
      have X: "X = timerFire i u st" by (simp add: X_def e handle_timerFire)
      show ?thesis
      proof (cases "timers st")
        case Nil
        then have "X = st" by (simp add: X timerFire_def)
        with iu show ?thesis by (simp add: idleUnresolved_def)
      next
        case (Cons p ps)
        with tok have ps: "ps = []" and tf: "t_focusWarningActive (snd p)"
          by (simp_all add: timerOK_def split: list.splits)
        from cc Cons have ch: "closureHolds st (snd p)" by (simp add: closureCurrent_def)
        show ?thesis
        proof (cases "i = fst p \<and> t_due (snd p) \<le> u")
          case True
          have f: "X = alertCallback (snd p) (st\<lparr>timers := []\<rparr>)"
            unfolding X using True Cons ps by (cases p) (simp add: timerFire_def)
          from alertCallback_outcome[of "snd p" "st\<lparr>timers := []\<rparr>"] tf resolved_current[OF ch]
          show ?thesis unfolding f by auto
        next
          case False
          then have "X = st" unfolding X using Cons ps by (cases p) (auto simp: timerFire_def)
          with Cons show ?thesis by simp
        qed
      qed
    qed
    then show ?thesis by (simp add: Z S_def idleUnresolved_def cS[unfolded S_def])
  qed
  then show ?thesis
    by (simp add: st' idleUnresolved_def ca)
qed

lemma episode_closure_run:
  assumes "alertEpisode E q0 st" and "closureCurrent st" and "idleUnresolved st"
    and "list_all sessionEvent seg"
    and "list_all focusWarningActive (statesOf numStr toNumber seg st)"
  shows "closureCurrent (run numStr toNumber seg st) \<and> idleUnresolved (run numStr toNumber seg st)"
  using assms
proof (induction seg arbitrary: st)
  case Nil
  then show ?case by simp
next
  case (Cons x seg)
  obtain u e where x: "x = (u, e)" by (cases x)
  define s1 where "s1 = step numStr toNumber (u, e) st"
  from Cons.prems x have ev: "sessionEvent (u, e)" and rest: "list_all sessionEvent seg"
    and f1: "focusWarningActive s1"
    and fr: "list_all focusWarningActive (statesOf numStr toNumber seg s1)"
    by (simp_all add: s1_def)
  from episode_step[OF Cons.prems(1) ev, of numStr toNumber, folded s1_def] f1
  have e1: "alertEpisode E q0 s1" by simp
  from Cons.prems(1) have "timerOK E st" by (simp add: alertEpisode_def)
  then have "timerPending st" by (rule timerOK_pending)
  from closureCurrent_step[OF Cons.prems(2) this, of numStr toNumber u e]
  have c1: "closureCurrent s1" by (simp add: s1_def)
  from idle_step[OF Cons.prems(1) Cons.prems(2) Cons.prems(3) ev, of numStr toNumber] f1
  have i1: "idleUnresolved s1" by (simp add: s1_def)
  from Cons.IH[OF e1 c1 i1 rest fr] show ?case
    by (simp add: x s1_def[symmetric])
qed
text \<open>
  A timeout set during an episode that began at \<open>E\<close> is due at \<open>E + 4000\<close> or at the
  clock reading of the render that set it, whichever is later.
\<close>

lemma due_step:
  assumes ep: "alertEpisode E q0 st" and du: "dueBy T st" and ev: "sessionEvent (u, e)"
    and uT: "u \<le> T" and ET: "E + 4000 \<le> T"
  shows "dueBy T (step numStr toNumber (u, e) st)"
proof -
  define X where "X = handle numStr toNumber u e st"
  define S where "S = socketPart X"
  define Z where "Z = alertPart u S"
  have st': "step numStr toNumber (u, e) st = timelinePart u Z"
    by (simp add: step_def commit_parts X_def S_def Z_def)
  from ep have inv: "sessionInv st" and fw: "focusWarningActive st" and ds: "distractedStartRef st = Some E"
    and tok: "timerOK E st"
    by (simp_all add: alertEpisode_def)
  from inv fw ds have E0: "E \<noteq> 0" by (simp add: sessionInv_def truthyRef_def)
  note hs = handle_session[OF ev, of numStr toNumber st, folded X_def]
  from hs ds have dS: "distractedStartRef S = Some E" by (simp add: S_def)
  from timerOK_pending[OF tok] have tp: "timerPending st" .
  have hX: "set (timers X) \<subseteq> set (timers st) \<and> timerPending X"
  proof (cases "isTimerFire e")
    case True
    then obtain i where e: "e = TimerFire i" using isTimerFire_cases by blast
    have X: "X = timerFire i u st" by (simp add: X_def e handle_timerFire)
    from timerFire_timers[of i u st] have "set (timers X) \<subseteq> set (timers st)"
      unfolding X by auto
    with timerFire_pending(1)[OF tp, of i u] show ?thesis by (simp add: X)
  next
    case False
    note ha = handle_alert_fields[OF False, of numStr toNumber u st, folded X_def]
    from ha tp show ?thesis
      by (simp add: timerPending_def cong: list.case_cong)
  qed
  with du have dS': "dueBy T S" by (auto simp: dueBy_def S_def list_all_iff)
  have "dueBy T Z"
  proof (cases "alertDepsSame (alertDepsPrev S) (alertDepsOf S)")
    case True
    with dS' show ?thesis by (simp add: Z_def alertPart_same)
  next
    case False
    from hX have "timerPending S" by (simp add: S_def)
    from timerPending_OK[OF this] obtain E' where ok: "timerOK E' S" ..
    define c where "c = alertEffectCleanup S"
    note cl = cleanup_timers[OF ok, folded c_def]
    have z: "Z = (alertEffect u c)\<lparr>alertDepsPrev := Some (alertDepsOf S)\<rparr>"
      by (simp add: Z_def alertPart_run[OF False] c_def)
    from cl(6) dS have dc: "distractedStartRef c = Some E" by simp
    have r: "u + remainingDelay u c \<le> T"
      using dc E0 uT ET by (simp add: remainingDelay_def truthyRef_def refValue_def)
    show ?thesis
    proof (cases "lessonStarted c \<and> focusWarningActive c \<and> \<not> alertQueuedRef c")
      case True
      from alertEffect_schedule(1)[OF _ _ _ cl(1), of u] True r show ?thesis
        by (auto simp: dueBy_def z)
    next
      case False
      then have "timers (alertEffect u c) = []"
        using cl(1) by (auto simp: alertEffect_def clearAlertTimeout_def split: option.splits)
      then show ?thesis by (simp add: dueBy_def z)
    qed
  qed
  then show ?thesis by (simp add: st' dueBy_def)
qed

lemma due_run:
  assumes "alertEpisode E q0 st" and "dueBy T st" and "list_all sessionEvent seg"
    and "list_all focusWarningActive (statesOf numStr toNumber seg st)"
    and "list_all (\<lambda>x. fst x \<le> T) seg" and "E + 4000 \<le> T"
  shows "dueBy T (run numStr toNumber seg st)"
  using assms
proof (induction seg arbitrary: st)
  case Nil
  then show ?case by simp
next
  case (Cons x seg)
  obtain u e where x: "x = (u, e)" by (cases x)
  define s1 where "s1 = step numStr toNumber (u, e) st"
  from Cons.prems x have ev: "sessionEvent (u, e)" and rest: "list_all sessionEvent seg"
    and f1: "focusWarningActive s1"
    and fr: "list_all focusWarningActive (statesOf numStr toNumber seg s1)"
    and uT: "u \<le> T" and rT: "list_all (\<lambda>x. fst x \<le> T) seg"
    by (simp_all add: s1_def)
  from episode_step[OF Cons.prems(1) ev, of numStr toNumber, folded s1_def] f1
  have e1: "alertEpisode E q0 s1" by simp
  from due_step[OF Cons.prems(1) Cons.prems(2) ev uT Cons.prems(6), of numStr toNumber]
  have d1: "dueBy T s1" by (simp add: s1_def)
  from Cons.IH[OF e1 d1 rest fr rT Cons.prems(6)] show ?case
    by (simp add: x s1_def[symmetric])
qed

lemma episode_current:
  fixes numStr :: "jsnum \<Rightarrow> string" and toNumber :: "string \<Rightarrow> jsnum"
    and E :: int and e :: event and es :: "(int \<times> event) list" and a :: App
  defines "c \<equiv> run numStr toNumber es (step numStr toNumber (E, e) a)"
  assumes fa: "alertFocused a" and ca: "closureCurrent a" and ev: "sessionEvent (E, e)"
    and evs: "list_all sessionEvent es"
    and fb: "focusWarningActive (step numStr toNumber (E, e) a)"
    and fs: "list_all focusWarningActive (statesOf numStr toNumber es (step numStr toNumber (E, e) a))"
  shows "(\<forall>i tm. (i, tm) \<in> set (timers c) \<longrightarrow> closureHolds c tm)
     \<and> (\<forall>asset. \<not> alertQueuedRef c \<and> currentAsset c = Some asset
           \<longrightarrow> (\<exists>i tm. timers c = [(i, tm)] \<and> E + 4000 \<le> t_due tm
                  \<and> (\<forall>T. E + 4000 \<le> T \<and> list_all (\<lambda>x. fst x \<le> T) es \<longrightarrow> t_due tm \<le> T)
                  \<and> (\<forall>u. t_due tm \<le> u
                        \<longrightarrow> alertQueue (step numStr toNumber (u, TimerFire i) c) = alertQueue a @ [asset])))
     \<and> (alertQueuedRef c \<longrightarrow> (\<exists>x. alertQueue c = alertQueue a @ [x]))
     \<and> (\<not> alertQueuedRef c \<longrightarrow> alertQueue c = alertQueue a)"
proof -
  define b where "b = step numStr toNumber (E, e) a"
  from focused_step[OF fa ev, of numStr toNumber] fb
  have eb: "alertEpisode E (alertQueue a) b"
    and tb: "\<exists>i tm. timers b = [(i, tm)] \<and> t_due tm = E + 4000"
    by (auto simp: b_def)
  from fa have "timerPending a" by (simp add: alertFocused_def timerPending_def)
  from closureCurrent_step[OF ca this, of numStr toNumber E e] have cb: "closureCurrent b"
    by (simp add: b_def)
  from tb have ib: "idleUnresolved b" by (auto simp: idleUnresolved_def)
  from episode_run[OF eb evs, of numStr toNumber] fs
  have ec: "alertEpisode E (alertQueue a) c" by (simp add: b_def c_def)
  from episode_closure_run[OF eb cb ib evs, of numStr toNumber] fs
  have cc: "closureCurrent c" and ic: "idleUnresolved c" by (simp_all add: b_def c_def)
  from ec have tok: "timerOK E c" and qok: "queueOK (alertQueue a) c"
    by (simp_all add: alertEpisode_def)
  have h: "\<forall>i tm. (i, tm) \<in> set (timers c) \<longrightarrow> closureHolds c tm"
    using cc by (auto simp: closureCurrent_def list_all_iff)
  have q: "(alertQueuedRef c \<longrightarrow> (\<exists>x. alertQueue c = alertQueue a @ [x]))
     \<and> (\<not> alertQueuedRef c \<longrightarrow> alertQueue c = alertQueue a)"
    using qok by (simp add: queueOK_def)
  have f: "\<exists>i tm. timers c = [(i, tm)] \<and> E + 4000 \<le> t_due tm
                  \<and> (\<forall>T. E + 4000 \<le> T \<and> list_all (\<lambda>x. fst x \<le> T) es \<longrightarrow> t_due tm \<le> T)
                  \<and> (\<forall>u. t_due tm \<le> u
                        \<longrightarrow> alertQueue (step numStr toNumber (u, TimerFire i) c) = alertQueue a @ [asset])"
    if nq: "\<not> alertQueuedRef c" and cur: "currentAsset c = Some asset" for asset
  proof -
    from ic nq cur have "timers c \<noteq> []" by (auto simp: idleUnresolved_def)
    with tok obtain i tm where t: "timers c = [(i, tm)]" and due: "E + 4000 \<le> t_due tm"
      and tf: "t_focusWarningActive tm"
      by (cases "timers c") (auto simp: timerOK_def split: list.splits)
    from h t have "closureHolds c tm" by simp
    from resolved_current[OF this] cur have r: "resolvedAsset tm = Some asset" by simp
    have "alertQueue (step numStr toNumber (u, TimerFire i) c) = alertQueue a @ [asset]"
      if "t_due tm \<le> u" for u
      using fire_resolved[OF t tf nq that r, of numStr toNumber] q nq by simp
    moreover have "t_due tm \<le> T" if "E + 4000 \<le> T \<and> list_all (\<lambda>x. fst x \<le> T) es" for T
    proof -
      from tb that have "dueBy T b" by (auto simp: dueBy_def)
      from due_run[OF eb this evs, of numStr toNumber] fs that have "dueBy T c"
        by (simp add: b_def c_def)
      with t show ?thesis by (simp add: dueBy_def)
    qed
    ultimately show ?thesis using t due by blast
  qed
  from h q f show ?thesis by blast
qed

text \<open>
  C4. Take any session reached from the first render, a render \<open>a\<close> of it in which the
  smoothed state is focused, the event at clock reading \<open>E\<close> that makes it distracted
  (state \<open>b\<close>), and any further events \<open>es\<close> of the session during which it stays distracted
  (state \<open>c\<close>). Then
  \<^item> at the onset one timeout is pending, due at \<open>E + 4000\<close>;
  \<^item> during the episode at most one alert is appended to the queue, however often the
    labels change and the timeout is set again;
  \<^item> none is appended while the clock readings are below \<open>E + 4000\<close>;
  \<^item> the event that brings the focus back appends nothing and leaves no timeout pending
    and the queued flag cleared;
  \<^item> when the pending timeout runs at or after its due time and the state label of its
    closure resolves to an asset of its character, exactly that asset is appended;
  \<^item> whenever the alert effect sets a timeout at clock reading \<open>now\<close>, it is due at
    \<open>now + max (4000 - (now - start)) 0\<close>, where \<open>start\<close> is the start of the open episode,
    or \<open>now\<close> when the timeline has not recorded it yet;
  \<^item> the closure of a pending timeout holds the label, the character and the talking
    switch of the current render;
  \<^item> as long as no alert is queued for the episode, if the current label resolves to an
    asset of the active character then a timeout is pending, due no earlier than
    \<open>E + 4000\<close> and no later than any clock reading that is neither below \<open>E + 4000\<close> nor
    below a reading of the episode, and when it runs at or after its due time the queue is
    the queue of the onset with exactly that asset appended;
  \<^item> the queued flag is set exactly when the one alert of the episode has been appended.
\<close>

theorem alert_debounce:
  fixes numStr :: "jsnum \<Rightarrow> string" and toNumber :: "string \<Rightarrow> jsnum"
    and E t0 now0 :: int and e :: event and tr0 pre es :: "(int \<times> event) list"
  defines "a \<equiv> run numStr toNumber pre
                  (step numStr toNumber (t0, StartLesson) (run numStr toNumber tr0 (mount now0)))"
  defines "b \<equiv> step numStr toNumber (E, e) a"
  defines "c \<equiv> run numStr toNumber es b"
  assumes "startAccepted toNumber (run numStr toNumber tr0 (mount now0))" and "t0 \<noteq> 0"
    and "list_all sessionEvent pre" and "\<not> focusWarningActive a"
    and "sessionEvent (E, e)" and "list_all sessionEvent es"
    and "focusWarningActive b"
    and "list_all focusWarningActive (statesOf numStr toNumber es b)"
  shows "(\<exists>i tm. timers b = [(i, tm)] \<and> t_due tm = E + 4000)
     \<and> (alertQueue c = alertQueue a \<or> (\<exists>x. alertQueue c = alertQueue a @ [x]))
     \<and> (list_all (\<lambda>x. fst x < E + 4000) es \<longrightarrow> alertQueue c = alertQueue a)
     \<and> (\<forall>u ev. sessionEvent (u, ev) \<and> \<not> focusWarningActive (step numStr toNumber (u, ev) c)
           \<longrightarrow> alertQueue (step numStr toNumber (u, ev) c) = alertQueue c
             \<and> timers (step numStr toNumber (u, ev) c) = []
             \<and> \<not> alertQueuedRef (step numStr toNumber (u, ev) c))
     \<and> (\<forall>u i tm asset. timers c = [(i, tm)] \<and> \<not> alertQueuedRef c \<and> t_due tm \<le> u
             \<and> resolvedAsset tm = Some asset
           \<longrightarrow> alertQueue (step numStr toNumber (u, TimerFire i) c) = alertQueue c @ [asset])
     \<and> (\<forall>now s. lessonStarted s \<and> focusWarningActive s \<and> \<not> alertQueuedRef s
           \<longrightarrow> (\<exists>tm. timers (alertEffect now s) = timers s @ [(nextTimerId s, tm)]
                  \<and> t_due tm = now + max (4000 - (now - (if truthyRef (distractedStartRef s)
                                                     then refValue (distractedStartRef s) else now))) 0))
     \<and> (\<forall>i tm. (i, tm) \<in> set (timers c) \<longrightarrow> closureHolds c tm)
     \<and> (\<forall>asset. \<not> alertQueuedRef c \<and> currentAsset c = Some asset
           \<longrightarrow> (\<exists>i tm. timers c = [(i, tm)] \<and> E + 4000 \<le> t_due tm
                  \<and> (\<forall>T. E + 4000 \<le> T \<and> list_all (\<lambda>x. fst x \<le> T) es \<longrightarrow> t_due tm \<le> T)
                  \<and> (\<forall>u. t_due tm \<le> u
                        \<longrightarrow> alertQueue (step numStr toNumber (u, TimerFire i) c) = alertQueue a @ [asset])))
     \<and> (alertQueuedRef c \<longrightarrow> (\<exists>x. alertQueue c = alertQueue a @ [x]))
     \<and> (\<not> alertQueuedRef c \<longrightarrow> alertQueue c = alertQueue a)"
proof -
  define s0 where "s0 = run numStr toNumber tr0 (mount now0)"
  define s1 where "s1 = step numStr toNumber (t0, StartLesson) s0"
  have i0: "schedulerInv s0"
    unfolding s0_def by (rule schedulerInv_run[OF schedulerInv_mount])
  have c0: "closureCurrent s0"
    unfolding s0_def by (rule closureCurrent_run[OF schedulerInv_mount closureCurrent_mount])
  have i1: "schedulerInv s1"
    unfolding s1_def by (rule schedulerInv_step[OF i0])
  from i0 have "timerPending s0" by (simp add: schedulerInv_def)
  from closureCurrent_step[OF c0 this] have c1: "closureCurrent s1"
    by (simp add: s1_def)
  have ca: "closureCurrent a"
    unfolding a_def s0_def[symmetric] s1_def[symmetric] by (rule closureCurrent_run[OF i1 c1])
  from alertFocused_start[OF i0 assms(4)[folded s0_def] assms(5), of numStr]
  have f1: "alertFocused s1" by (simp add: s1_def)
  then have "if focusWarningActive s1 then (\<exists>E q0. alertEpisode E q0 s1) else alertFocused s1"
    by (simp add: alertFocused_def)
  from session_alert_run[OF this assms(6), of numStr toNumber] assms(7)
  have fa: "alertFocused a" by (simp add: a_def s0_def s1_def)
  have th: "(\<exists>i tm. timers b = [(i, tm)] \<and> t_due tm = E + 4000)
     \<and> (alertQueue c = alertQueue a \<or> (\<exists>x. alertQueue c = alertQueue a @ [x]))
     \<and> (list_all (\<lambda>x. fst x < E + 4000) es \<longrightarrow> alertQueue c = alertQueue a)
     \<and> (\<forall>u ev. sessionEvent (u, ev) \<and> \<not> focusWarningActive (step numStr toNumber (u, ev) c)
           \<longrightarrow> alertQueue (step numStr toNumber (u, ev) c) = alertQueue c
             \<and> alertFocused (step numStr toNumber (u, ev) c))
     \<and> (\<forall>u i tm asset. timers c = [(i, tm)] \<and> \<not> alertQueuedRef c \<and> t_due tm \<le> u
             \<and> resolvedAsset tm = Some asset
           \<longrightarrow> alertQueue (step numStr toNumber (u, TimerFire i) c) = alertQueue c @ [asset])
     \<and> (\<forall>now s. lessonStarted s \<and> focusWarningActive s \<and> \<not> alertQueuedRef s
           \<longrightarrow> (\<exists>tm. timers (alertEffect now s) = timers s @ [(nextTimerId s, tm)]
                  \<and> t_due tm = now + max (4000 - (now - (if truthyRef (distractedStartRef s)
                                                     then refValue (distractedStartRef s) else now))) 0))"
    unfolding b_def c_def
    by (rule episode_debounce[OF fa assms(8) assms(9), of numStr toNumber])
       (use assms(10) assms(11) in \<open>simp_all add: b_def\<close>)
  have cu: "(\<forall>i tm. (i, tm) \<in> set (timers c) \<longrightarrow> closureHolds c tm)
     \<and> (\<forall>asset. \<not> alertQueuedRef c \<and> currentAsset c = Some asset
           \<longrightarrow> (\<exists>i tm. timers c = [(i, tm)] \<and> E + 4000 \<le> t_due tm
                  \<and> (\<forall>T. E + 4000 \<le> T \<and> list_all (\<lambda>x. fst x \<le> T) es \<longrightarrow> t_due tm \<le> T)
                  \<and> (\<forall>u. t_due tm \<le> u
                        \<longrightarrow> alertQueue (step numStr toNumber (u, TimerFire i) c) = alertQueue a @ [asset])))
     \<and> (alertQueuedRef c \<longrightarrow> (\<exists>x. alertQueue c = alertQueue a @ [x]))
     \<and> (\<not> alertQueuedRef c \<longrightarrow> alertQueue c = alertQueue a)"
    unfolding b_def c_def
    by (rule episode_current[OF fa ca assms(8) assms(9), of numStr toNumber])
       (use assms(10) assms(11) in \<open>simp_all add: b_def\<close>)
  have w: "alertFocused s \<Longrightarrow> timers s = [] \<and> \<not> alertQueuedRef s" for s
    by (simp add: alertFocused_def)
  from th have th': "(\<exists>i tm. timers b = [(i, tm)] \<and> t_due tm = E + 4000)
     \<and> (alertQueue c = alertQueue a \<or> (\<exists>x. alertQueue c = alertQueue a @ [x]))
     \<and> (list_all (\<lambda>x. fst x < E + 4000) es \<longrightarrow> alertQueue c = alertQueue a)
     \<and> (\<forall>u ev. sessionEvent (u, ev) \<and> \<not> focusWarningActive (step numStr toNumber (u, ev) c)
           \<longrightarrow> alertQueue (step numStr toNumber (u, ev) c) = alertQueue c
             \<and> timers (step numStr toNumber (u, ev) c) = []
             \<and> \<not> alertQueuedRef (step numStr toNumber (u, ev) c))
     \<and> (\<forall>u i tm asset. timers c = [(i, tm)] \<and> \<not> alertQueuedRef c \<and> t_due tm \<le> u
             \<and> resolvedAsset tm = Some asset
           \<longrightarrow> alertQueue (step numStr toNumber (u, TimerFire i) c) = alertQueue c @ [asset])
     \<and> (\<forall>now s. lessonStarted s \<and> focusWarningActive s \<and> \<not> alertQueuedRef s
           \<longrightarrow> (\<exists>tm. timers (alertEffect now s) = timers s @ [(nextTimerId s, tm)]
                  \<and> t_due tm = now + max (4000 - (now - (if truthyRef (distractedStartRef s)
                                                     then refValue (distractedStartRef s) else now))) 0))"
    using w by blast
  from th' cu show ?thesis by (intro conjI) blast+
qed
theorem alert_debounce_witness:
  "startAccepted numberOfDecimal (run (\<lambda>n. []) numberOfDecimal [] (mount 500)) \<and> (1900::int) \<noteq> 0
   \<and> list_all sessionEvent [(1950, stateMessage ''focused'')]
   \<and> \<not> focusWarningActive beforeC4
   \<and> sessionEvent (2000, stateMessage ''No Face'') \<and> list_all sessionEvent episodeC4
   \<and> focusWarningActive onsetC4
   \<and> list_all focusWarningActive (statesOf (\<lambda>n. []) numberOfDecimal episodeC4 onsetC4)
   \<and> (\<exists>i tm. timers onsetC4 = [(i, tm)] \<and> t_due tm = 2000 + 4000)
   \<and> currentAsset onsetC4 = None
   \<and> \<not> alertQueuedRef duringC4
   \<and> currentAsset duringC4 = Some ''/videos/cop/Cop-phone.mp4''
   \<and> map fst (timers duringC4) = [3]
   \<and> alertQueue (step (\<lambda>n. []) numberOfDecimal (6000, TimerFire 3) duringC4)
       = [''/videos/cop/Cop-phone.mp4'']"
proof -
  have h1: "startAccepted numberOfDecimal (run (\<lambda>n. []) numberOfDecimal [] (mount 500))" by code_simp
  have h2: "(1900::int) \<noteq> 0" by simp
  have h3: "list_all sessionEvent [(1950, stateMessage ''focused'')]" by code_simp
  have h4: "\<not> focusWarningActive beforeC4" by code_simp
  have h5: "sessionEvent (2000, stateMessage ''No Face'')" by code_simp
  have h6: "list_all sessionEvent episodeC4" by code_simp
  have h7: "focusWarningActive onsetC4" by code_simp
  have h8: "list_all focusWarningActive (statesOf (\<lambda>n. []) numberOfDecimal episodeC4 onsetC4)"
    by code_simp
  have o: "currentAsset onsetC4 = None" by code_simp
  have q: "\<not> alertQueuedRef duringC4" by code_simp
  have r: "currentAsset duringC4 = Some ''/videos/cop/Cop-phone.mp4''" by code_simp
  have t: "map fst (timers duringC4) = [3] \<and> map (\<lambda>p. t_due (snd p)) (timers duringC4) = [6000]"
    by code_simp
  have a: "alertQueue beforeC4 = []" by code_simp
  note th = alert_debounce[of numberOfDecimal "\<lambda>n. []" "[]" 500 1900 "[(1950, stateMessage ''focused'')]"
      2000 "stateMessage ''No Face''" episodeC4, folded beforeC4_def, folded onsetC4_def,
      folded duringC4_def, OF h1 h2 h3 h4 h5 h6 h7 h8]
  from th have on: "\<exists>i tm. timers onsetC4 = [(i, tm)] \<and> t_due tm = 2000 + 4000" by blast
  from th q r obtain i tm where tm: "timers duringC4 = [(i, tm)]"
    and f: "\<forall>u. t_due tm \<le> u \<longrightarrow>
        alertQueue (step (\<lambda>n. []) numberOfDecimal (u, TimerFire i) duringC4)
          = alertQueue beforeC4 @ [''/videos/cop/Cop-phone.mp4'']"
    by blast
  from tm t have "i = 3" and "t_due tm = 6000" by simp_all
  with f a have "alertQueue (step (\<lambda>n. []) numberOfDecimal (6000, TimerFire 3) duringC4)
       = [''/videos/cop/Cop-phone.mp4'']"
    by simp
  with h1 h2 h3 h4 h5 h6 h7 h8 on o q r t show ?thesis by simp
qed

end
